theory Spec2Isabelle
  imports Main "HOL-Library.Word" "HOL-Library.Multiset"
begin

unbundle bit_operations_syntax

section \<open>The declarations a package is built from\<close>

text \<open>
  \<open>bind/package.go\<close> reads a type-checked package (\<open>go/types\<close>) and its documentation
  (\<open>go/doc\<close>). Both are libraries outside the repository; this section gives the part of
  their data the code reads.

  A \<open>types.Type\<close> is a term; the code only compares types and passes them on. A
  \<open>types.Tuple\<close> is the list of its variables, each the pair of \<open>Name()\<close> and \<open>Type()\<close>.
\<close>

datatype gotype =
    Basic string
  | Named string
  | Pointer gotype
  | Slice gotype
  | Array nat gotype
  | MapOf gotype gotype
  | SignatureOf "(string \<times> gotype) option" "(string \<times> gotype) list" "(string \<times> gotype) list"

type_synonym tvar = "string \<times> gotype"

record tsignature =
  ts_recv :: "tvar option"
  ts_params :: "tvar list"
  ts_results :: "tvar list"

text \<open>The type assertion \<open>t.(*types.Signature)\<close>; it panics on any other type.\<close>

fun as_signature :: "gotype \<Rightarrow> tsignature option" where
  "as_signature (SignatureOf r ps rs) = Some \<lparr>ts_recv = r, ts_params = ps, ts_results = rs\<rparr>"
| "as_signature t = None"

text \<open>
  A \<open>types.Object\<close>: its dynamic type (the cases of the type switches), \<open>Name()\<close>, \<open>Pkg()\<close>
  as the pair of the package's \<open>Name()\<close> and \<open>Path()\<close> (\<open>None\<close> for \<open>nil\<close>, as objects of
  the universe have it), \<open>Type()\<close>, whether \<open>Parent()\<close> is not \<open>nil\<close>, and \<open>Exported()\<close>.
\<close>

datatype okind = ConstObj | VarObj | FuncObj | TypeNameObj | OtherObj

record tobject =
  okind :: okind
  oname :: string
  opkg :: "(string \<times> string) option"
  otype :: gotype
  oparent :: bool
  oexported :: bool

text \<open>A selection of a method set: \<open>Obj()\<close> and \<open>Type()\<close>.\<close>

record selection =
  sel_obj :: tobject
  sel_type :: gotype

text \<open>
  A \<open>types.Package\<close>: \<open>Name()\<close>, \<open>Path()\<close> and the objects of \<open>Scope()\<close> in the order of
  \<open>Names()\<close>.
\<close>

record tpackage =
  tp_name :: string
  tp_path :: string
  tp_scope :: "tobject list"

text \<open>\<open>scope.Lookup(name)\<close>.\<close>

definition Lookup :: "tobject list \<Rightarrow> string \<Rightarrow> tobject option" where
  "Lookup scope name = find (\<lambda>ob. oname ob = name) scope"

text \<open>The documentation index: \<open>doc.Value\<close>, \<open>doc.Func\<close>, \<open>doc.Type\<close> and \<open>doc.Package\<close>.\<close>

record doc_value =
  dv_names :: "string list"
  dv_doc :: string

record doc_func =
  df_name :: string
  df_doc :: string

record doc_type =
  dt_name :: string
  dt_doc :: string
  dt_funcs :: "doc_func list"
  dt_methods :: "doc_func list"

record doc_package =
  dp_import_path :: string
  dp_doc :: string
  dp_consts :: "doc_value list"
  dp_vars :: "doc_value list"
  dp_types :: "doc_type list"
  dp_funcs :: "doc_func list"

section \<open>Package, Type, Func, Signature and Const\<close>

text \<open>
  The symbol table (\<open>bind/symtab.go\<close>) and \<open>Var\<close> (\<open>bind/vars.go\<close>) are not among the
  sources at hand. A \<open>symbol\<close> and a \<open>Var\<close> are records of the fields that
  \<open>package.go\<close>, \<open>gengo.go\<close> and \<open>gencpy.go\<close> read, \<open>GoType()\<close> of a symbol among them.
  The table itself stays abstract (the type variable \<open>'st\<close>), and so does everything those
  files define: the functions are the fields of \<open>extern\<close> below.
\<close>

record symbol =
  sym_id :: string
  sym_goname :: string
  sym_doc :: string
  sym_pysig :: string
  sym_cgoname :: string
  sym_cpyname :: string
  sym_gotype :: gotype

record var =
  v_name :: string
  v_sym :: symbol
  v_id :: string
  v_doc :: string

text \<open>
  What can go wrong: \<open>Errorf\<close> is an error value the function returns, the others are
  panics (\<open>panic(fmt.Errorf(...))\<close> with its format and the object or the string it
  prints, a \<open>nil\<close> dereference, a failed type assertion), but for \<open>ErrorList\<close>, the
  errors a generator has collected and returns.
\<close>

datatype error =
    Errorf string tobject
  | PanicErrorf string tobject
  | PanicErrorfS string string
  | PanicNil
  | PanicAssert
  | ErrorList "string list"

record signature =
  sig_ret :: "var list"
  sig_args :: "var list"
  sig_recv :: "var option"

text \<open>
  \<open>Func\<close> and \<open>Type\<close> without their pointer back to the \<open>Package\<close>. The field \<open>sig\<close>
  is a pointer, \<open>nil\<close> in the zero \<open>Func\<close>; \<open>typ\<close> and \<open>ret\<close> are interfaces, \<open>nil\<close>
  when there is no type.
\<close>

record func =
  f_sig :: "signature option"
  f_typ :: "gotype option"
  f_name :: string
  f_desc :: string
  f_id :: string
  f_doc :: string
  f_ret :: "gotype option"
  f_err :: bool
  f_ctor :: bool

definition zero_Func :: func where
  "zero_Func = \<lparr>f_sig = None, f_typ = None, f_name = [], f_desc = [], f_id = [], f_doc = [],
     f_ret = None, f_err = False, f_ctor = False\<rparr>"

record gtype =
  t_sym :: symbol
  t_obj :: tobject
  t_id :: string
  t_doc :: string
  t_ctors :: "func list"
  t_meths :: "func list"
  t_new :: func
  t_del :: func
  t_init :: func
  t_str :: func
  t_prots :: int

definition ProtoStringer :: int where
  "ProtoStringer = 1"

record const =
  c_sym :: "symbol option"
  c_obj :: tobject
  c_id :: string
  c_doc :: string
  c_f :: func

datatype object = TypeObject gtype | FuncObject func

text \<open>\<open>Package\<close>, without \<open>sz\<close> (the sizes of \<open>int\<close>, which nothing below reads).\<close>

record 'st package =
  p_pkg :: tpackage
  p_n :: int
  p_doc :: doc_package
  p_syms :: 'st
  p_objs :: "string \<rightharpoonup> object"
  p_consts :: "const list"
  p_vars :: "var list"
  p_types :: "gtype list"
  p_funcs :: "func list"

text \<open>
  The functions of the files that are not at hand, and of \<open>go/types\<close>:
  \<^item> \<open>isErrorType\<close>, \<open>isStringer\<close>: the two predicates \<open>package.go\<close> calls;
  \<^item> \<open>newSymtab\<close>, \<open>addSymbol\<close>, \<open>addType\<close>, \<open>symtype\<close>, \<open>sym\<close>, \<open>names\<close>, \<open>syms\<close>
    (the map \<open>p.syms.syms\<close>), \<open>isNamed\<close>, and \<open>setDoc\<close> for the assignment
    \<open>sym.doc = doc\<close> through the pointer the table holds;
  \<^item> \<open>universe\<close>: \<open>universe.sym\<close>, the lookup in the table of predeclared types;
  \<^item> \<open>newVar\<close>, \<open>newVarFrom\<close>: the constructors of \<open>Var\<close>;
  \<^item> \<open>NewMethodSet\<close>, \<open>Methods\<close> (\<open>NumMethods\<close> and \<open>Method(i)\<close> of a named type) and
    \<open>ObjectString\<close> of \<open>go/types\<close>.
\<close>

record 'st extern =
  isErrorType :: "gotype \<Rightarrow> bool"
  isStringer :: "tobject \<Rightarrow> bool"
  newSymtab :: "tpackage \<Rightarrow> 'st"
  addSymbol :: "tobject \<Rightarrow> 'st \<Rightarrow> error + 'st"
  addType :: "gotype \<Rightarrow> 'st \<Rightarrow> error + 'st"
  symtype :: "'st \<Rightarrow> gotype \<Rightarrow> symbol option"
  sym :: "'st \<Rightarrow> string \<Rightarrow> symbol option"
  names :: "'st \<Rightarrow> string list"
  syms :: "'st \<Rightarrow> string \<Rightarrow> symbol option"
  isNamed :: "symbol \<Rightarrow> bool"
  setDoc :: "symbol \<Rightarrow> string \<Rightarrow> 'st \<Rightarrow> 'st"
  universe :: "string \<Rightarrow> symbol option"
  newVar :: "'st package \<Rightarrow> gotype \<Rightarrow> string \<Rightarrow> string \<Rightarrow> string \<Rightarrow> var"
  newVarFrom :: "'st package \<Rightarrow> tvar \<Rightarrow> var"
  NewMethodSet :: "gotype \<Rightarrow> selection list"
  Methods :: "gotype \<Rightarrow> tobject list"
  ObjectString :: "tobject \<Rightarrow> string"

subsection \<open>Strings\<close>

definition nl :: string where
  "nl = [CHR 0x0A]"

text \<open>\<open>strings.Join\<close>.\<close>

fun Join :: "string list \<Rightarrow> string \<Rightarrow> string" where
  "Join [] sep = []"
| "Join [x] sep = x"
| "Join (x # y # ys) sep = x @ sep @ Join (y # ys) sep"

subsection \<open>getDoc\<close>

text \<open>
  The loops of \<open>getDoc\<close> return at the first match: over the names of each value, over
  the functions or methods of each type called \<open>parent\<close>, over the package's functions,
  over its types.
\<close>

fun value_doc :: "string \<Rightarrow> doc_value list \<Rightarrow> string option" where
  "value_doc n [] = None"
| "value_doc n (c # cs) = (if n \<in> set (dv_names c) then Some (dv_doc c) else value_doc n cs)"

fun func_doc :: "string \<Rightarrow> doc_func list \<Rightarrow> string option" where
  "func_doc n [] = None"
| "func_doc n (m # ms) = (if df_name m = n then Some (df_doc m) else func_doc n ms)"

fun type_doc :: "string \<Rightarrow> doc_type list \<Rightarrow> string option" where
  "type_doc n [] = None"
| "type_doc n (t # ts) = (if n = dt_name t then Some (dt_doc t) else type_doc n ts)"

fun member_doc :: "bool \<Rightarrow> string \<Rightarrow> string \<Rightarrow> doc_type list \<Rightarrow> string option" where
  "member_doc no_parent parent n [] = None"
| "member_doc no_parent parent n (typ # typs) =
     (if dt_name typ \<noteq> parent then member_doc no_parent parent n typs
      else (case func_doc n (if no_parent then dt_methods typ else dt_funcs typ) of
              Some d \<Rightarrow> Some d
            | None \<Rightarrow> member_doc no_parent parent n typs))"

definition or_empty :: "string option \<Rightarrow> string" where
  "or_empty r = (case r of Some d \<Rightarrow> d | None \<Rightarrow> [])"

text \<open>
  \<open>parseFn\<close>: the \<open>pysig\<close> of each variable's symbol, followed by the variable's name when
  it has one. \<open>symtype\<close> gives \<open>nil\<close> for a type the table does not hold, and reading
  \<open>pysig\<close> through it panics.
\<close>

fun parseFn :: "(gotype \<Rightarrow> symbol option) \<Rightarrow> tvar list \<Rightarrow> error + string list" where
  "parseFn st [] = Inr []"
| "parseFn st (paramVar # tup) =
     (case st (snd paramVar) of
        None \<Rightarrow> Inl PanicNil
      | Some s \<Rightarrow>
          (case parseFn st tup of
             Inl e \<Rightarrow> Inl e
           | Inr params \<Rightarrow>
               Inr ((if fst paramVar \<noteq> [] then sym_pysig s @ '' '' @ fst paramVar
                     else sym_pysig s) # params)))"

definition getDoc :: "'st extern \<Rightarrow> 'st package \<Rightarrow> string \<Rightarrow> tobject \<Rightarrow> error + string" where
  "getDoc X p parent ob =
     (let n = oname ob in
      case okind ob of
        ConstObj \<Rightarrow> Inr (or_empty (value_doc n (dp_consts (p_doc p))))
      | VarObj \<Rightarrow> Inr (or_empty (value_doc n (dp_vars (p_doc p))))
      | FuncObj \<Rightarrow>
          (let doc = (if \<not> oparent ob \<or> (oparent ob \<and> parent \<noteq> [])
                      then or_empty (member_doc (\<not> oparent ob) parent n (dp_types (p_doc p)))
                      else or_empty (func_doc n (dp_funcs (p_doc p))))
           in case as_signature (otype ob) of
                None \<Rightarrow> Inl PanicAssert
              | Some sig \<Rightarrow>
                  (case parseFn (symtype X (p_syms p)) (ts_params sig) of
                     Inl e \<Rightarrow> Inl e
                   | Inr params \<Rightarrow>
                       (case parseFn (symtype X (p_syms p)) (ts_results sig) of
                          Inl e \<Rightarrow> Inl e
                        | Inr results \<Rightarrow>
                            (let docSig = oname ob @ ''('' @ Join params '', '' @ '') ''
                                            @ Join results '', ''
                             in Inr (if doc \<noteq> [] then docSig @ nl @ nl @ doc else docSig)))))
      | TypeNameObj \<Rightarrow> Inr (or_empty (type_doc n (dp_types (p_doc p))))
      | OtherObj \<Rightarrow> Inl (PanicErrorf ''not yet supported: %v (%T)'' ob))"

subsection \<open>Signatures and functions\<close>

text \<open>
  Modelled from the spec: \<open>newVarsFrom\<close> is defined in \<open>bind/vars.go\<close>, which is not among
  the sources. A Func has an "ordered parameter list" and an "ordered result list": the
  list holds the \<open>Var\<close> of each entry of the tuple, in the tuple's order.
\<close>

definition newVarsFrom :: "'st extern \<Rightarrow> 'st package \<Rightarrow> tvar list \<Rightarrow> var list" where
  "newVarsFrom X p tuple = map (newVarFrom X p) tuple"

definition newSignatureFrom :: "'st extern \<Rightarrow> 'st package \<Rightarrow> tsignature \<Rightarrow> signature" where
  "newSignatureFrom X p sig =
     \<lparr>sig_ret = newVarsFrom X p (ts_results sig),
      sig_args = newVarsFrom X p (ts_params sig),
      sig_recv = (case ts_recv sig of None \<Rightarrow> None | Some r \<Rightarrow> Some (newVarFrom X p r))\<rparr>"

definition newSignature :: "var option \<Rightarrow> var list \<Rightarrow> var list \<Rightarrow> signature" where
  "newSignature recv params results = \<lparr>sig_ret = results, sig_args = params, sig_recv = recv\<rparr>"

text \<open>The \<open>switch res.Len()\<close> of \<open>newFuncFrom\<close>: the pair of \<open>haserr\<close> and \<open>ret\<close>, or the error.\<close>

definition result_arity :: "'st extern \<Rightarrow> tobject \<Rightarrow> tvar list \<Rightarrow> error + (bool \<times> gotype option)" where
  "result_arity X ob res =
     (if length res = 2 then
        (if \<not> isErrorType X (snd (res ! 1))
         then Inl (Errorf ''bind: second result value must be of type error: %s'' ob)
         else Inr (True, Some (snd (res ! 0))))
      else if length res = 1 then
        (if isErrorType X (snd (res ! 0)) then Inr (True, None)
         else Inr (False, Some (snd (res ! 0))))
      else if length res = 0 then Inr (False, None)
      else Inl (Errorf ''bind: too many results to return: %v'' ob))"

definition newFuncFrom ::
  "'st extern \<Rightarrow> 'st package \<Rightarrow> string \<Rightarrow> tobject \<Rightarrow> tsignature \<Rightarrow> error + func" where
  "newFuncFrom X p parent ob sig =
     (case result_arity X ob (ts_results sig) of
        Inl e \<Rightarrow> Inl e
      | Inr (haserr, ret) \<Rightarrow>
          (case opkg ob of
             None \<Rightarrow> Inl PanicNil
           | Some (pkg_name, pkg_path) \<Rightarrow>
               (let desc = (if parent \<noteq> [] then pkg_path @ ''.'' @ parent @ ''.'' @ oname ob
                            else pkg_path @ ''.'' @ oname ob);
                    ident = (if parent \<noteq> [] then pkg_name @ ''_'' @ parent @ ''_'' @ oname ob
                             else pkg_name @ ''_'' @ oname ob)
                in case getDoc X p parent ob of
                     Inl e \<Rightarrow> Inl e
                   | Inr doc \<Rightarrow>
                       Inr \<lparr>f_sig = Some (newSignatureFrom X p sig),
                            f_typ = Some (otype ob),
                            f_name = oname ob,
                            f_desc = desc,
                            f_id = ident,
                            f_doc = doc,
                            f_ret = ret,
                            f_err = haserr,
                            f_ctor = False\<rparr>)))"

subsection \<open>Types and constants\<close>

definition ImportPath :: "'st package \<Rightarrow> string" where
  "ImportPath p = dp_import_path (p_doc p)"

text \<open>
  \<open>newType\<close> writes the documentation into the symbol the table holds, so it gives back
  the package with the table after that assignment, too.
\<close>

definition newType :: "'st extern \<Rightarrow> 'st package \<Rightarrow> tobject \<Rightarrow> error + (gtype \<times> 'st package)" where
  "newType X p ob =
     (case symtype X (p_syms p) (otype ob) of
        None \<Rightarrow> Inl (PanicErrorf ''no such object [%s] in symbols table'' ob)
      | Some s0 \<Rightarrow>
          (case getDoc X p [] ob of
             Inl e \<Rightarrow> Inl e
           | Inr d \<Rightarrow>
               (let s = s0\<lparr>sym_doc := d\<rparr>;
                    p1 = p\<lparr>p_syms := setDoc X s0 d (p_syms p)\<rparr>;
                    desc = ImportPath p1 @ ''.'' @ oname ob;
                    recv = newVar X p1 (otype ob) ''recv'' (oname ob) (sym_doc s);
                    fnew = \<lparr>f_sig = Some (newSignature None []
                                     [newVar X p1 (otype ob) ''ret'' (oname ob) (sym_doc s)]),
                            f_typ = None,
                            f_name = oname ob,
                            f_desc = desc @ ''.new'',
                            f_id = sym_id s @ ''_new'',
                            f_doc = sym_doc s,
                            f_ret = Some (otype ob),
                            f_err = False,
                            f_ctor = False\<rparr>
                in case universe X ''string'' of
                     None \<Rightarrow> Inl PanicNil
                   | Some styp \<Rightarrow>
                       (let fstr = \<lparr>f_sig = Some (newSignature (Some recv) []
                                            [newVar X p1 (sym_gotype styp) ''ret'' ''string'' []]),
                                    f_typ = None,
                                    f_name = oname ob,
                                    f_desc = desc @ ''.str'',
                                    f_id = sym_id s @ ''_str'',
                                    f_doc = [],
                                    f_ret = Some (sym_gotype styp),
                                    f_err = False,
                                    f_ctor = False\<rparr>
                        in Inr (\<lparr>t_sym = s, t_obj = ob, t_id = [], t_doc = [], t_ctors = [],
                                  t_meths = [], t_new = fnew, t_del = zero_Func,
                                  t_init = zero_Func, t_str = fstr, t_prots = 0\<rparr>, p1)))))"

definition GoType :: "gtype \<Rightarrow> gotype" where
  "GoType t = sym_gotype (t_sym t)"

definition GoName :: "gtype \<Rightarrow> string" where
  "GoName t = sym_goname (t_sym t)"

definition newConst :: "'st extern \<Rightarrow> 'st package \<Rightarrow> tobject \<Rightarrow> error + const" where
  "newConst X p ob =
     (case opkg ob of
        None \<Rightarrow> Inl PanicNil
      | Some (pkg_name, pkg_path) \<Rightarrow>
          (let s = symtype X (p_syms p) (otype ob);
               ident = pkg_name @ ''_'' @ oname ob
           in case getDoc X p [] ob of
                Inl e \<Rightarrow> Inl e
              | Inr doc \<Rightarrow>
                  (let res = [newVar X p (otype ob) ''ret'' (oname ob) doc];
                       fct = \<lparr>f_sig = Some (newSignature None [] res),
                              f_typ = None,
                              f_name = oname ob,
                              f_desc = ImportPath p @ ''.'' @ oname ob @ ''.get'',
                              f_id = ident @ ''_get'',
                              f_doc = doc,
                              f_ret = Some (otype ob),
                              f_err = False,
                              f_ctor = False\<rparr>
                   in Inr \<lparr>c_sym = s, c_obj = ob, c_id = ident, c_doc = doc, c_f = fct\<rparr>)))"

subsection \<open>process\<close>

text \<open>
  \<open>process\<close> keeps the functions and the types it collects in two Go maps and ranges over
  them. The order in which \<open>range\<close> visits the keys of a map is not fixed by Go, and an entry
  deleted before it is reached is not visited. The model takes the orders as an argument:
  one for \<open>range typs\<close>, one for the \<open>range funcs\<close> inside the step of each type, one for
  the \<open>range funcs\<close> that follows. A key of an order that the map no longer holds is passed
  over.
\<close>

record schedule =
  typs_order :: "string list"
  funcs_order :: "string \<Rightarrow> string list"
  rest_order :: "string list"

text \<open>An order the Go run-time can take: each key of the map, once.\<close>

definition range_of :: "string list \<Rightarrow> (string \<rightharpoonup> 'a) \<Rightarrow> bool" where
  "range_of order m \<longleftrightarrow> distinct order \<and> set order = dom m"

definition valid_schedule ::
  "schedule \<Rightarrow> (string \<rightharpoonup> func) \<Rightarrow> (string \<rightharpoonup> gtype) \<Rightarrow> bool" where
  "valid_schedule sch funcs typs \<longleftrightarrow>
     range_of (typs_order sch) typs \<and>
     (\<forall>tname. range_of (funcs_order sch tname) funcs) \<and>
     range_of (rest_order sch) funcs"

definition Package_addConst :: "const \<Rightarrow> 'st package \<Rightarrow> 'st package" where
  "Package_addConst c p = p\<lparr>p_consts := p_consts p @ [c]\<rparr>"

definition Package_addVar :: "var \<Rightarrow> 'st package \<Rightarrow> 'st package" where
  "Package_addVar v p = p\<lparr>p_vars := p_vars p @ [v]\<rparr>"

definition Package_addType :: "gtype \<Rightarrow> 'st package \<Rightarrow> 'st package" where
  "Package_addType t p =
     p\<lparr>p_types := p_types p @ [t], p_objs := (p_objs p)(GoName t \<mapsto> TypeObject t)\<rparr>"

definition Package_addFunc :: "func \<Rightarrow> 'st package \<Rightarrow> 'st package" where
  "Package_addFunc f p =
     p\<lparr>p_funcs := p_funcs p @ [f], p_objs := (p_objs p)(f_name f \<mapsto> FuncObject f)\<rparr>"

text \<open>The first loop: every exported object is counted and given to the symbol table.\<close>

fun add_symbols :: "'st extern \<Rightarrow> tobject list \<Rightarrow> 'st package \<Rightarrow> error + 'st package" where
  "add_symbols X [] p = Inr p"
| "add_symbols X (ob # obs) p =
     (if \<not> oexported ob then add_symbols X obs p
      else (case addSymbol X ob (p_syms p) of
              Inl e \<Rightarrow> Inl e
            | Inr st \<Rightarrow> add_symbols X obs (p\<lparr>p_n := p_n p + 1, p_syms := st\<rparr>)))"

text \<open>The second loop: constants and variables go to the package, functions and types to the maps.\<close>

fun collect ::
  "'st extern \<Rightarrow> tobject list \<Rightarrow> 'st package \<times> (string \<rightharpoonup> func) \<times> (string \<rightharpoonup> gtype) \<Rightarrow>
     error + 'st package \<times> (string \<rightharpoonup> func) \<times> (string \<rightharpoonup> gtype)" where
  "collect X [] (p, funcs, typs) = Inr (p, funcs, typs)"
| "collect X (ob # obs) (p, funcs, typs) =
     (if \<not> oexported ob then collect X obs (p, funcs, typs)
      else (case okind ob of
              ConstObj \<Rightarrow>
                (case newConst X p ob of
                   Inl e \<Rightarrow> Inl e
                 | Inr c \<Rightarrow> collect X obs (Package_addConst c p, funcs, typs))
            | VarObj \<Rightarrow>
                collect X obs (Package_addVar (newVarFrom X p (oname ob, otype ob)) p, funcs, typs)
            | FuncObj \<Rightarrow>
                (case as_signature (otype ob) of
                   None \<Rightarrow> Inl PanicAssert
                 | Some sig \<Rightarrow>
                     (case newFuncFrom X p [] ob sig of
                        Inl e \<Rightarrow> Inl e
                      | Inr f \<Rightarrow> collect X obs (p, funcs(oname ob \<mapsto> f), typs)))
            | TypeNameObj \<Rightarrow>
                (case newType X p ob of
                   Inl e \<Rightarrow> Inl e
                 | Inr (t, p1) \<Rightarrow> collect X obs (p1, funcs, typs(oname ob \<mapsto> t)))
            | OtherObj \<Rightarrow> Inl (PanicErrorf ''not yet supported: %v (%T)'' ob)))"

text \<open>
  The inner loop of the third: a function whose \<open>Return()\<close> is the type \<open>t\<close> leaves \<open>funcs\<close>
  and joins \<open>t.ctors\<close>, with \<open>ctor\<close> set and \<open>doc\<close> looked up under the name of the type.
\<close>

fun promote ::
  "'st extern \<Rightarrow> 'st package \<Rightarrow> string \<Rightarrow> string list \<Rightarrow> gtype \<times> (string \<rightharpoonup> func) \<Rightarrow>
     error + gtype \<times> (string \<rightharpoonup> func)" where
  "promote X p tname [] (t, funcs) = Inr (t, funcs)"
| "promote X p tname (name # rest) (t, funcs) =
     (case funcs name of
        None \<Rightarrow> promote X p tname rest (t, funcs)
      | Some fct \<Rightarrow>
          (if f_ret fct = None then promote X p tname rest (t, funcs)
           else if f_ret fct = Some (GoType t) then
             (case Lookup (tp_scope (p_pkg p)) name of
                None \<Rightarrow> Inl PanicNil
              | Some ob \<Rightarrow>
                  (case getDoc X p tname ob of
                     Inl e \<Rightarrow> Inl e
                   | Inr d \<Rightarrow>
                       promote X p tname rest
                         (t\<lparr>t_ctors := t_ctors t @ [fct\<lparr>f_doc := d, f_ctor := True\<rparr>]\<rparr>,
                          funcs(name := None))))
           else promote X p tname rest (t, funcs)))"

text \<open>The loop over the method set of the pointer to the type.\<close>

fun add_meths ::
  "'st extern \<Rightarrow> 'st package \<Rightarrow> string \<Rightarrow> selection list \<Rightarrow> gtype \<Rightarrow> error + gtype" where
  "add_meths X p tname [] t = Inr t"
| "add_meths X p tname (meth # meths) t =
     (if \<not> oexported (sel_obj meth) then add_meths X p tname meths t
      else (case as_signature (sel_type meth) of
              None \<Rightarrow> Inl PanicAssert
            | Some sig \<Rightarrow>
                (case newFuncFrom X p tname (sel_obj meth) sig of
                   Inl e \<Rightarrow> Inl e
                 | Inr m \<Rightarrow>
                     add_meths X p tname meths
                       (t\<lparr>t_meths := t_meths t @ [m],
                          t_prots := (if isStringer X (sel_obj meth)
                                      then t_prots t OR ProtoStringer else t_prots t)\<rparr>))))"

text \<open>The third loop, over \<open>typs\<close>.\<close>

fun process_types ::
  "'st extern \<Rightarrow> (string \<Rightarrow> string list) \<Rightarrow> string list \<Rightarrow>
     'st package \<times> (string \<rightharpoonup> func) \<times> (string \<rightharpoonup> gtype) \<Rightarrow>
     error + 'st package \<times> (string \<rightharpoonup> func) \<times> (string \<rightharpoonup> gtype)" where
  "process_types X forder [] (p, funcs, typs) = Inr (p, funcs, typs)"
| "process_types X forder (tname # rest) (p, funcs, typs) =
     (case typs tname of
        None \<Rightarrow> process_types X forder rest (p, funcs, typs)
      | Some t \<Rightarrow>
          (case promote X p tname (forder tname) (t, funcs) of
             Inl e \<Rightarrow> Inl e
           | Inr (t1, funcs1) \<Rightarrow>
               (let ptyp = Pointer (GoType t1)
                in case addType X ptyp (p_syms p) of
                     Inl e \<Rightarrow> Inl e
                   | Inr st \<Rightarrow>
                       (let p1 = p\<lparr>p_syms := st\<rparr>
                        in case add_meths X p1 tname (NewMethodSet X ptyp) t1 of
                             Inl e \<Rightarrow> Inl e
                           | Inr t2 \<Rightarrow>
                               process_types X forder rest
                                 (Package_addType t2 p1, funcs1, typs(tname \<mapsto> t1))))))"

text \<open>The fourth loop: the functions left in \<open>funcs\<close> become the package's functions.\<close>

fun add_funcs :: "string list \<Rightarrow> (string \<rightharpoonup> func) \<Rightarrow> 'st package \<Rightarrow> 'st package" where
  "add_funcs [] funcs p = p"
| "add_funcs (name # rest) funcs p =
     (case funcs name of
        None \<Rightarrow> add_funcs rest funcs p
      | Some fct \<Rightarrow> add_funcs rest funcs (Package_addFunc fct p))"

text \<open>The last loop writes the documentation of methods into their symbols.\<close>

fun attach_methods ::
  "'st extern \<Rightarrow> string \<Rightarrow> tobject list \<Rightarrow> 'st package \<Rightarrow> error + 'st package" where
  "attach_methods X goname [] p = Inr p"
| "attach_methods X goname (m # ms) p =
     (if \<not> oexported m then attach_methods X goname ms p
      else (case getDoc X p goname m of
              Inl e \<Rightarrow> Inl e
            | Inr doc \<Rightarrow>
                (case sym X (p_syms p) (ObjectString X m) of
                   None \<Rightarrow> Inl (PanicErrorf ''gopy: could not retrieve symbol for %q'' m)
                 | Some msym \<Rightarrow>
                     attach_methods X goname ms (p\<lparr>p_syms := setDoc X msym doc (p_syms p)\<rparr>))))"

fun attach_docs :: "'st extern \<Rightarrow> string list \<Rightarrow> 'st package \<Rightarrow> error + 'st package" where
  "attach_docs X [] p = Inr p"
| "attach_docs X (n # ns) p =
     (case syms X (p_syms p) n of
        None \<Rightarrow> Inl PanicNil
      | Some s \<Rightarrow>
          (if \<not> isNamed X s then attach_docs X ns p
           else (case sym_gotype s of
                   Named nm \<Rightarrow>
                     (case attach_methods X (sym_goname s) (Methods X (sym_gotype s)) p of
                        Inl e \<Rightarrow> Inl e
                      | Inr p1 \<Rightarrow> attach_docs X ns p1)
                 | _ \<Rightarrow> attach_docs X ns p)))"

text \<open>The package after the first two loops, with the two maps.\<close>

definition classify ::
  "'st extern \<Rightarrow> 'st package \<Rightarrow>
     error + 'st package \<times> (string \<rightharpoonup> func) \<times> (string \<rightharpoonup> gtype)" where
  "classify X p =
     (case add_symbols X (tp_scope (p_pkg p)) p of
        Inl e \<Rightarrow> Inl e
      | Inr p1 \<Rightarrow> collect X (tp_scope (p_pkg p)) (p1, Map.empty, Map.empty))"

definition process :: "'st extern \<Rightarrow> schedule \<Rightarrow> 'st package \<Rightarrow> error + 'st package" where
  "process X sch p =
     (case classify X p of
        Inl e \<Rightarrow> Inl e
      | Inr (p2, funcs, typs) \<Rightarrow>
          (case process_types X (funcs_order sch) (typs_order sch) (p2, funcs, typs) of
             Inl e \<Rightarrow> Inl e
           | Inr (p3, funcs1, typs1) \<Rightarrow>
               (let p4 = add_funcs (rest_order sch) funcs1 p3
                in attach_docs X (names X (p_syms p4)) p4)))"

definition NewPackage ::
  "'st extern \<Rightarrow> schedule \<Rightarrow> tpackage \<Rightarrow> doc_package \<Rightarrow> error + 'st package" where
  "NewPackage X sch pkg doc =
     process X sch
       \<lparr>p_pkg = pkg, p_n = 0, p_doc = doc, p_syms = newSymtab X pkg, p_objs = Map.empty,
        p_consts = [], p_vars = [], p_types = [], p_funcs = []\<rparr>"

text \<open>A function whose \<open>Return()\<close> is the Go type of one of the collected types.\<close>

definition returns_type :: "(string \<rightharpoonup> gtype) \<Rightarrow> func \<Rightarrow> bool" where
  "returns_type typs f \<longleftrightarrow> (\<exists>tname t. typs tname = Some t \<and> f_ret f = Some (GoType t))"

text \<open>What \<open>process\<close> leaves of the map of functions: those that return none of the types.\<close>

definition kept :: "(string \<rightharpoonup> func) \<Rightarrow> (string \<rightharpoonup> gtype) \<Rightarrow> string \<Rightarrow> func option" where
  "kept funcs typs n =
     (case funcs n of None \<Rightarrow> None
      | Some f \<Rightarrow> if returns_type typs f then None else Some f)"

section \<open>The generators\<close>







subsection \<open>gencpy.go: the body of a wrapped function\<close>













subsection \<open>gencpy.go: tp_init of a struct\<close>






subsection \<open>gengo.go: the Go stub\<close>















section \<open>The reference table of the generated Go stub\<close>

text \<open>
  The constant \<open>goPreamble\<close> of \<open>bind/gengo.go\<close> is the text of the Go file every
  generated binding starts with. Its "cref helpers" are the run-time reference table:
  the struct \<open>cobject\<close>, the package variable \<open>refs\<close>, the exported functions
  \<open>cgopy_incref\<close> and \<open>cgopy_decref\<close>, and \<open>init\<close>. They are embedded here as they
  are written there.

  An \<open>unsafe.Pointer\<close> is an address, a natural number with \<open>0\<close> for \<open>nil\<close>; an \<open>int32\<close>
  is a 32-bit word whose arithmetic wraps and whose comparisons read it signed (\<open>sint\<close>).
  Both functions run between \<open>refs.Lock()\<close> and \<open>refs.Unlock()\<close>, so a call is one atomic
  step on the table. A Go \<open>panic\<close> is the left injection of the result.
\<close>

type_synonym pointer = nat
type_synonym int32 = "32 word"

datatype panic = Panic string

record cobject =
  ptr :: pointer
  cnt :: int32

record refs_t =
  "next" :: int32
  refs :: "pointer \<rightharpoonup> int32"
  ptrs :: "int32 \<rightharpoonup> cobject"

text \<open>Reading a Go map at a key it does not hold gives the zero value of the element type.\<close>

definition ptrs_at :: "refs_t \<Rightarrow> int32 \<Rightarrow> cobject" where
  "ptrs_at s num = (case ptrs s num of Some c \<Rightarrow> c | None \<Rightarrow> \<lparr>ptr = 0, cnt = 0\<rparr>)"

definition cgopy_incref :: "pointer \<Rightarrow> refs_t \<Rightarrow> panic + refs_t" where
  "cgopy_incref p s =
     (case refs s p of
        Some num \<Rightarrow>
          (let c = ptrs_at s num
           in Inr (s\<lparr>ptrs := (ptrs s)(num \<mapsto> \<lparr>ptr = ptr c, cnt = cnt c + 1\<rparr>)\<rparr>))
      | None \<Rightarrow>
          (let num = next s;
               s1 = s\<lparr>next := next s - 1\<rparr>
           in if 0 < sint (next s1) then Inl (Panic ''refs.next underflow'')
              else Inr (s1\<lparr>refs := (refs s1)(p \<mapsto> num),
                            ptrs := (ptrs s1)(num \<mapsto> \<lparr>ptr = p, cnt = 1\<rparr>)\<rparr>)))"

definition cgopy_decref :: "pointer \<Rightarrow> refs_t \<Rightarrow> panic + refs_t" where
  "cgopy_decref p s =
     (case refs s p of
        None \<Rightarrow> Inl (Panic ''cgopy: decref untracked object'')
      | Some num \<Rightarrow>
          (let c = ptrs_at s num
           in if sint (cnt c - 1) \<le> 0
              then Inr (s\<lparr>ptrs := (ptrs s)(num := None), refs := (refs s)(p := None)\<rparr>)
              else Inr (s\<lparr>ptrs := (ptrs s)(num \<mapsto> \<lparr>ptr = ptr c, cnt = cnt c - 1\<rparr>)\<rparr>)))"

text \<open>The table as \<open>init\<close> leaves it.\<close>

definition refs_init :: refs_t where
  "refs_init = \<lparr>next = - 24, refs = Map.empty, ptrs = Map.empty\<rparr>"

subsection \<open>Sequences of calls\<close>

datatype call = Incref pointer | Decref pointer

fun step :: "call \<Rightarrow> refs_t \<Rightarrow> panic + refs_t" where
  "step (Incref p) s = cgopy_incref p s"
| "step (Decref p) s = cgopy_decref p s"

text \<open>A panic ends the process: the calls after it do not run.\<close>

fun run :: "call list \<Rightarrow> refs_t \<Rightarrow> panic + refs_t" where
  "run [] s = Inr s"
| "run (c # cs) s = (case step c s of Inl e \<Rightarrow> Inl e | Inr s' \<Rightarrow> run cs s')"

text \<open>
  The reference number a call assigns: the number the table holds afterwards for an
  address it did not hold before the call.
\<close>

definition assigned_by :: "call \<Rightarrow> refs_t \<Rightarrow> refs_t \<Rightarrow> int32 list" where
  "assigned_by c s s' =
     (case c of
        Decref p \<Rightarrow> []
      | Incref p \<Rightarrow>
          (case refs s p of
             Some old \<Rightarrow> []
           | None \<Rightarrow> (case refs s' p of Some num \<Rightarrow> [num] | None \<Rightarrow> [])))"

text \<open>The numbers assigned along a sequence of calls, oldest first.\<close>

fun assigned :: "call list \<Rightarrow> refs_t \<Rightarrow> int32 list" where
  "assigned [] s = []"
| "assigned (c # cs) s =
     (case step c s of
        Inl e \<Rightarrow> []
      | Inr s' \<Rightarrow> assigned_by c s s' @ assigned cs s')"

text \<open>
  The shape of a table the two functions keep: the two maps mirror each other, and every
  number in use is above \<open>next\<close>, which is negative.
\<close>

definition refs_ok :: "refs_t \<Rightarrow> bool" where
  "refs_ok s \<longleftrightarrow>
     sint (next s) < 0 \<and>
     (\<forall>p num. refs s p = Some num \<longrightarrow>
        sint (next s) < sint num \<and> (\<exists>c. ptrs s num = Some c \<and> ptr c = p)) \<and>
     (\<forall>num c. ptrs s num = Some c \<longrightarrow> refs s (ptr c) = Some num)"

text \<open>The table entries that belong to an address.\<close>

definition entries_of :: "refs_t \<Rightarrow> pointer \<Rightarrow> (int32 \<times> cobject) set" where
  "entries_of s p = {(num, c). ptrs s num = Some c \<and> ptr c = p}"

section \<open>An example package\<close>

text \<open>
  A package \<open>p\<close> with the type \<open>Foo\<close>, the function \<open>NewFoo() (Foo, error)\<close> and two more
  functions, \<open>Add(a int, b int) int\<close> and \<open>Hi()\<close>; its documentation files \<open>NewFoo\<close> under
  the type it returns, as \<open>go/doc\<close> does. The symbol table holds a symbol for every type,
  named after it. The theorems below are applied to it.
\<close>

fun type_name :: "gotype \<Rightarrow> string" where
  "type_name (Basic n) = n"
| "type_name (Named n) = n"
| "type_name (Pointer t) = ''*'' @ type_name t"
| "type_name (Slice t) = ''[]'' @ type_name t"
| "type_name t = ''object''"

definition ex_symbol :: "gotype \<Rightarrow> symbol" where
  "ex_symbol t =
     \<lparr>sym_id = ''p_'' @ type_name t, sym_goname = type_name t, sym_doc = [],
      sym_pysig = type_name t, sym_cgoname = ''cgo_type_'' @ type_name t,
      sym_cpyname = ''cpy_type_'' @ type_name t, sym_gotype = t\<rparr>"

definition ex_var :: "gotype \<Rightarrow> string \<Rightarrow> string \<Rightarrow> var" where
  "ex_var t n doc = \<lparr>v_name = n, v_sym = ex_symbol t, v_id = ''p_'' @ n, v_doc = doc\<rparr>"

definition ex_extern :: "unit extern" where
  "ex_extern =
     \<lparr>isErrorType = (\<lambda>t. t = Named ''error''),
      isStringer = (\<lambda>ob. False),
      newSymtab = (\<lambda>pkg. ()),
      addSymbol = (\<lambda>ob st. Inr st),
      addType = (\<lambda>t st. Inr st),
      symtype = (\<lambda>st t. Some (ex_symbol t)),
      sym = (\<lambda>st n. None),
      names = (\<lambda>st. []),
      syms = (\<lambda>st n. None),
      isNamed = (\<lambda>s. False),
      setDoc = (\<lambda>s doc st. st),
      universe = (\<lambda>n. Some (ex_symbol (Basic n))),
      newVar = (\<lambda>p t n goname doc. ex_var t n doc),
      newVarFrom = (\<lambda>p v. ex_var (snd v) (fst v) []),
      NewMethodSet = (\<lambda>t. []),
      Methods = (\<lambda>t. []),
      ObjectString = oname\<rparr>"

definition ex_func :: "string \<Rightarrow> tvar list \<Rightarrow> tvar list \<Rightarrow> tobject" where
  "ex_func n ps rs =
     \<lparr>okind = FuncObj, oname = n, opkg = Some (''p'', ''ex/p''),
      otype = SignatureOf None ps rs, oparent = True, oexported = True\<rparr>"

definition ex_Add :: tobject where
  "ex_Add = ex_func ''Add'' [(''a'', Basic ''int''), (''b'', Basic ''int'')] [([], Basic ''int'')]"

definition ex_Foo :: tobject where
  "ex_Foo =
     \<lparr>okind = TypeNameObj, oname = ''Foo'', opkg = Some (''p'', ''ex/p''),
      otype = Named ''Foo'', oparent = True, oexported = True\<rparr>"

definition ex_Hi :: tobject where
  "ex_Hi = ex_func ''Hi'' [] []"

definition ex_NewFoo :: tobject where
  "ex_NewFoo = ex_func ''NewFoo'' [] [([], Named ''Foo''), ([], Named ''error'')]"

definition ex_Bad2 :: tobject where
  "ex_Bad2 = ex_func ''Bad2'' [] [([], Basic ''int''), ([], Basic ''int'')]"

definition ex_Bad3 :: tobject where
  "ex_Bad3 = ex_func ''Bad3'' [] [([], Basic ''int''), ([], Basic ''int''), ([], Named ''error'')]"

definition ex_Fail :: tobject where
  "ex_Fail = ex_func ''Fail'' [] [([], Named ''error'')]"

definition ex_Max :: tobject where
  "ex_Max =
     \<lparr>okind = ConstObj, oname = ''Max'', opkg = Some (''p'', ''ex/p''),
      otype = Basic ''int'', oparent = True, oexported = True\<rparr>"

definition ex_doc :: doc_package where
  "ex_doc =
     \<lparr>dp_import_path = ''ex/p'', dp_doc = ''Package p is an example.'',
      dp_consts = [], dp_vars = [],
      dp_types = [\<lparr>dt_name = ''Foo'', dt_doc = ''Foo is a struct.'',
                   dt_funcs = [\<lparr>df_name = ''NewFoo'', df_doc = ''NewFoo makes a Foo.''\<rparr>],
                   dt_methods = []\<rparr>],
      dp_funcs = [\<lparr>df_name = ''Add'', df_doc = ''Add adds.''\<rparr>]\<rparr>"

definition ex_tpackage :: tpackage where
  "ex_tpackage = \<lparr>tp_name = ''p'', tp_path = ''ex/p'', tp_scope = [ex_Add, ex_Foo, ex_Hi, ex_NewFoo]\<rparr>"

definition ex_package :: "unit package" where
  "ex_package =
     \<lparr>p_pkg = ex_tpackage, p_n = 0, p_doc = ex_doc, p_syms = (), p_objs = Map.empty,
      p_consts = [], p_vars = [], p_types = [], p_funcs = []\<rparr>"

definition sig_of :: "tobject \<Rightarrow> tsignature" where
  "sig_of ob = (case as_signature (otype ob) of Some sig \<Rightarrow> sig
                | None \<Rightarrow> \<lparr>ts_recv = None, ts_params = [], ts_results = []\<rparr>)"

text \<open>The \<open>Func\<close> that \<open>newFuncFrom\<close> makes of \<open>NewFoo\<close>.\<close>

definition ex_NewFoo_Func :: func where
  "ex_NewFoo_Func =
     \<lparr>f_sig = Some \<lparr>sig_ret = [ex_var (Named ''Foo'') [] [], ex_var (Named ''error'') [] []],
                    sig_args = [], sig_recv = None\<rparr>,
      f_typ = Some (otype ex_NewFoo), f_name = ''NewFoo'', f_desc = ''ex/p.NewFoo'',
      f_id = ''p_NewFoo'', f_doc = ''NewFoo() Foo, error'', f_ret = Some (Named ''Foo''),
      f_err = True, f_ctor = False\<rparr>"



text \<open>
  Two orders of the maps of \<open>process\<close> on the example, and the Go stub that comes out of
  each: the package is built, then printed, with one line for each type in the place of
  \<open>genType\<close> and \<open>genStruct\<close>.
\<close>

definition ex_schedule_1 :: schedule where
  "ex_schedule_1 =
     \<lparr>typs_order = [''Foo''],
      funcs_order = (\<lambda>tname. [''Add'', ''Hi'', ''NewFoo'']),
      rest_order = [''Add'', ''Hi'', ''NewFoo'']\<rparr>"

definition ex_schedule_2 :: schedule where
  "ex_schedule_2 =
     \<lparr>typs_order = [''Foo''],
      funcs_order = (\<lambda>tname. [''NewFoo'', ''Hi'', ''Add'']),
      rest_order = [''Hi'', ''NewFoo'', ''Add'']\<rparr>"


section \<open>Properties of the reference table\<close>

lemma sint_dec:
  assumes "sint (x::int32) < 0" and "\<not> 0 < sint (x - 1)"
  shows "sint (x - 1) = sint x - 1"
proof -
  have lo: "- (2 ^ 31) \<le> sint x" using sint_ge [of x] by simp
  have eq: "sint (x - 1) = signed_take_bit 31 (sint x - 1)"
    by (simp add: sint_word_ariths)
  show ?thesis
  proof (cases "sint x = - (2 ^ 31)")
    case True
    then have "sint (x - 1) = 2 ^ 31 - 1"
      using eq by (simp add: signed_take_bit_eq_take_bit_shift take_bit_eq_mod)
    then show ?thesis using assms(2) by simp
  next
    case False
    then have "- (2 ^ 31) \<le> sint x - 1" "sint x - 1 < 2 ^ 31"
      using lo assms(1) by simp_all
    then have "signed_take_bit 31 (sint x - 1) = sint x - 1"
      by (simp add: signed_take_bit_int_eq_self)
    then show ?thesis using eq by simp
  qed
qed

lemma sint_dec_min:
  assumes "sint (x::int32) = - (2 ^ 31)"
  shows "0 < sint (x - 1)"
proof -
  have "sint (x - 1) = signed_take_bit 31 (sint x - 1)"
    by (simp add: sint_word_ariths)
  then have "sint (x - 1) = 2 ^ 31 - 1"
    using assms by (simp add: signed_take_bit_eq_take_bit_shift take_bit_eq_mod)
  then show ?thesis by simp
qed

lemma sint_dec_above_min:
  assumes "- (2 ^ 31) < sint (x::int32)" and "sint x < 0"
  shows "sint (x - 1) = sint x - 1"
proof -
  have "sint (x - 1) = signed_take_bit 31 (sint x - 1)"
    by (simp add: sint_word_ariths)
  moreover have "signed_take_bit 31 (sint x - 1) = sint x - 1"
    using assms by (simp add: signed_take_bit_int_eq_self)
  ultimately show ?thesis by simp
qed

lemma incref_tracked:
  "refs s p = Some num \<Longrightarrow>
   cgopy_incref p s =
     Inr (s\<lparr>ptrs := (ptrs s)(num \<mapsto> \<lparr>ptr = ptr (ptrs_at s num), cnt = cnt (ptrs_at s num) + 1\<rparr>)\<rparr>)"
  by (simp add: cgopy_incref_def Let_def)

lemma incref_fresh:
  assumes "refs s p = None" and "- (2 ^ 31) < sint (next s)" and "sint (next s) < 0"
  shows "cgopy_incref p s =
     Inr (s\<lparr>next := next s - 1, refs := (refs s)(p \<mapsto> next s),
            ptrs := (ptrs s)(next s \<mapsto> \<lparr>ptr = p, cnt = 1\<rparr>)\<rparr>)"
proof -
  have "sint (next s - 1) = sint (next s) - 1"
    using assms(2,3) by (rule sint_dec_above_min)
  with assms show ?thesis by (simp add: cgopy_incref_def Let_def)
qed

lemma incref_underflow:
  assumes "refs s p = None" and "sint (next s) = - (2 ^ 31)"
  shows "cgopy_incref p s = Inl (Panic ''refs.next underflow'')"
  using assms(1) sint_dec_min [OF assms(2)] by (simp add: cgopy_incref_def Let_def)

lemma decref_untracked:
  "refs s p = None \<Longrightarrow> cgopy_decref p s = Inl (Panic ''cgopy: decref untracked object'')"
  by (simp add: cgopy_decref_def)

lemma cnt_dec_le0:
  assumes "0 < sint (c::int32)"
  shows "sint (c - 1) \<le> 0 \<longleftrightarrow> c = 1"
proof -
  have "sint c < 2 ^ 31" using sint_lt [of c] by simp
  then have "signed_take_bit 31 (sint c - 1) = sint c - 1"
    using assms by (simp add: signed_take_bit_int_eq_self)
  then have eq: "sint (c - 1) = sint c - 1" by (simp add: sint_word_ariths)
  have "sint c = 1 \<longleftrightarrow> c = 1"
    using word_eq_iff_signed [of c 1, where ?'a = int] by simp
  with eq assms show ?thesis by auto
qed

lemma decref_tracked:
  assumes "refs s p = Some num" and "ptrs s num = Some c" and "0 < sint (cnt c)"
  shows "cgopy_decref p s =
     Inr (if cnt c = 1
          then s\<lparr>ptrs := (ptrs s)(num := None), refs := (refs s)(p := None)\<rparr>
          else s\<lparr>ptrs := (ptrs s)(num \<mapsto> \<lparr>ptr = ptr c, cnt = cnt c - 1\<rparr>)\<rparr>)"
  using assms cnt_dec_le0 [OF assms(3)]
  by (simp add: cgopy_decref_def ptrs_at_def Let_def)


lemma refs_okI:
  assumes "sint (next s) < 0"
    and "\<And>p num. refs s p = Some num \<Longrightarrow> sint (next s) < sint num"
    and "\<And>p num. refs s p = Some num \<Longrightarrow> \<exists>c. ptrs s num = Some c \<and> ptr c = p"
    and "\<And>num c. ptrs s num = Some c \<Longrightarrow> refs s (ptr c) = Some num"
  shows "refs_ok s"
  using assms unfolding refs_ok_def by blast

lemma refs_ok_neg: "refs_ok s \<Longrightarrow> sint (next s) < 0"
  unfolding refs_ok_def by blast

lemma refs_ok_above: "refs_ok s \<Longrightarrow> refs s p = Some num \<Longrightarrow> sint (next s) < sint num"
  unfolding refs_ok_def by blast

lemma refs_ok_entry:
  "refs_ok s \<Longrightarrow> refs s p = Some num \<Longrightarrow> \<exists>c. ptrs s num = Some c \<and> ptr c = p"
  unfolding refs_ok_def by blast

lemma refs_ok_back: "refs_ok s \<Longrightarrow> ptrs s num = Some c \<Longrightarrow> refs s (ptr c) = Some num"
  unfolding refs_ok_def by blast

lemma refs_ok_uniq:
  assumes "refs_ok s" and "refs s p = Some num" and "refs s q = Some num"
  shows "q = p"
proof -
  from refs_ok_entry [OF assms(1,2)] obtain c where "ptrs s num = Some c" "ptr c = p" by blast
  moreover from refs_ok_entry [OF assms(1,3)] obtain d where "ptrs s num = Some d" "ptr d = q"
    by blast
  ultimately show ?thesis by simp
qed

lemma refs_ok_next_free:
  assumes "refs_ok s"
  shows "ptrs s (next s) = None"
proof (cases "ptrs s (next s)")
  case (Some c)
  from refs_ok_back [OF assms Some] have "refs s (ptr c) = Some (next s)" .
  from refs_ok_above [OF assms this] show ?thesis by simp
qed simp

lemma refs_ok_incref:
  assumes "refs_ok s" and "cgopy_incref p s = Inr s'"
  shows "refs_ok s'"
proof (cases "refs s p")
  case (Some num)
  from refs_ok_entry [OF assms(1) Some] obtain c where c: "ptrs s num = Some c" "ptr c = p"
    by blast
  have s': "s' = s\<lparr>ptrs := (ptrs s)(num \<mapsto> \<lparr>ptr = p, cnt = cnt c + 1\<rparr>)\<rparr>"
    using assms(2) Some c by (simp add: incref_tracked ptrs_at_def)
  show ?thesis
  proof (rule refs_okI)
    show "sint (next s') < 0" using refs_ok_neg [OF assms(1)] by (simp add: s')
  next
    fix q n assume "refs s' q = Some n"
    then have "refs s q = Some n" by (simp add: s')
    from refs_ok_above [OF assms(1) this] show "sint (next s') < sint n" by (simp add: s')
  next
    fix q n assume "refs s' q = Some n"
    then have q: "refs s q = Some n" by (simp add: s')
    show "\<exists>c. ptrs s' n = Some c \<and> ptr c = q"
    proof (cases "n = num")
      case True
      with q Some have "q = p" using refs_ok_uniq [OF assms(1) Some] by simp
      with True show ?thesis by (simp add: s')
    next
      case False
      with refs_ok_entry [OF assms(1) q] show ?thesis by (simp add: s')
    qed
  next
    fix n d assume d: "ptrs s' n = Some d"
    show "refs s' (ptr d) = Some n"
    proof (cases "n = num")
      case True
      with d have "ptr d = p" by (auto simp: s')
      with True Some show ?thesis by (simp add: s')
    next
      case False
      with d have "ptrs s n = Some d" by (simp add: s')
      from refs_ok_back [OF assms(1) this] show ?thesis by (simp add: s')
    qed
  qed
next
  case None
  from assms(1) have neg: "sint (next s) < 0" by (rule refs_ok_neg)
  from None assms(2) have np: "\<not> 0 < sint (next s - 1)"
    and s': "s' = s\<lparr>next := next s - 1, refs := (refs s)(p \<mapsto> next s),
                   ptrs := (ptrs s)(next s \<mapsto> \<lparr>ptr = p, cnt = 1\<rparr>)\<rparr>"
    by (auto simp: cgopy_incref_def Let_def split: if_splits)
  have dec: "sint (next s - 1) = sint (next s) - 1" using neg np by (rule sint_dec)
  have free: "ptrs s (next s) = None" using assms(1) by (rule refs_ok_next_free)
  show ?thesis
  proof (rule refs_okI)
    show "sint (next s') < 0" using neg dec by (simp add: s')
  next
    fix q n assume qn: "refs s' q = Some n"
    show "sint (next s') < sint n"
    proof (cases "q = p")
      case True
      with qn have "n = next s" by (simp add: s')
      with dec show ?thesis by (simp add: s')
    next
      case False
      with qn have "refs s q = Some n" by (simp add: s')
      from refs_ok_above [OF assms(1) this] dec show ?thesis by (simp add: s')
    qed
  next
    fix q n assume qn: "refs s' q = Some n"
    show "\<exists>c. ptrs s' n = Some c \<and> ptr c = q"
    proof (cases "q = p")
      case True
      with qn have "n = next s" by (simp add: s')
      with True show ?thesis by (simp add: s')
    next
      case False
      with qn have q: "refs s q = Some n" by (simp add: s')
      from refs_ok_above [OF assms(1) q] have "n \<noteq> next s" by auto
      with refs_ok_entry [OF assms(1) q] show ?thesis by (simp add: s')
    qed
  next
    fix n d assume d: "ptrs s' n = Some d"
    show "refs s' (ptr d) = Some n"
    proof (cases "n = next s")
      case True
      with d have "ptr d = p" by (auto simp: s')
      with True show ?thesis by (simp add: s')
    next
      case False
      with d have d0: "ptrs s n = Some d" by (simp add: s')
      from refs_ok_back [OF assms(1) d0] have r: "refs s (ptr d) = Some n" .
      with None have "ptr d \<noteq> p" by auto
      with r show ?thesis by (simp add: s')
    qed
  qed
qed

lemma refs_ok_decref:
  assumes "refs_ok s" and "cgopy_decref p s = Inr s'"
  shows "refs_ok s'"
proof (cases "refs s p")
  case None
  with assms(2) show ?thesis by (simp add: cgopy_decref_def)
next
  case (Some num)
  from refs_ok_entry [OF assms(1) Some] obtain c where c: "ptrs s num = Some c" "ptr c = p"
    by blast
  from assms(2) Some c
  have "s' = s\<lparr>ptrs := (ptrs s)(num := None), refs := (refs s)(p := None)\<rparr> \<or>
        s' = s\<lparr>ptrs := (ptrs s)(num \<mapsto> \<lparr>ptr = p, cnt = cnt c - 1\<rparr>)\<rparr>"
    by (auto simp: cgopy_decref_def ptrs_at_def Let_def split: if_splits)
  then show ?thesis
  proof
    assume s': "s' = s\<lparr>ptrs := (ptrs s)(num := None), refs := (refs s)(p := None)\<rparr>"
    show ?thesis
    proof (rule refs_okI)
      show "sint (next s') < 0" using refs_ok_neg [OF assms(1)] by (simp add: s')
    next
      fix q n assume "refs s' q = Some n"
      then have "refs s q = Some n" by (simp add: s' split: if_splits)
      from refs_ok_above [OF assms(1) this] show "sint (next s') < sint n" by (simp add: s')
    next
      fix q n assume qn: "refs s' q = Some n"
      then have q: "refs s q = Some n" and "q \<noteq> p" by (simp_all add: s' split: if_splits)
      with refs_ok_uniq [OF assms(1) Some, of q] have "n \<noteq> num" by auto
      with refs_ok_entry [OF assms(1) q] show "\<exists>c. ptrs s' n = Some c \<and> ptr c = q"
        by (simp add: s')
    next
      fix n d assume d: "ptrs s' n = Some d"
      then have d0: "ptrs s n = Some d" and "n \<noteq> num" by (simp_all add: s' split: if_splits)
      from refs_ok_back [OF assms(1) d0] have r: "refs s (ptr d) = Some n" .
      with Some \<open>n \<noteq> num\<close> have "ptr d \<noteq> p" by auto
      with r show "refs s' (ptr d) = Some n" by (simp add: s')
    qed
  next
    assume s': "s' = s\<lparr>ptrs := (ptrs s)(num \<mapsto> \<lparr>ptr = p, cnt = cnt c - 1\<rparr>)\<rparr>"
    show ?thesis
    proof (rule refs_okI)
      show "sint (next s') < 0" using refs_ok_neg [OF assms(1)] by (simp add: s')
    next
      fix q n assume "refs s' q = Some n"
      then have "refs s q = Some n" by (simp add: s')
      from refs_ok_above [OF assms(1) this] show "sint (next s') < sint n" by (simp add: s')
    next
      fix q n assume "refs s' q = Some n"
      then have q: "refs s q = Some n" by (simp add: s')
      show "\<exists>c. ptrs s' n = Some c \<and> ptr c = q"
      proof (cases "n = num")
        case True
        with q have "q = p" using refs_ok_uniq [OF assms(1) Some] by simp
        with True show ?thesis by (simp add: s')
      next
        case False
        with refs_ok_entry [OF assms(1) q] show ?thesis by (simp add: s')
      qed
    next
      fix n d assume d: "ptrs s' n = Some d"
      show "refs s' (ptr d) = Some n"
      proof (cases "n = num")
        case True
        with d have "ptr d = p" by (auto simp: s')
        with True Some show ?thesis by (simp add: s')
      next
        case False
        with d have "ptrs s n = Some d" by (simp add: s')
        from refs_ok_back [OF assms(1) this] show ?thesis by (simp add: s')
      qed
    qed
  qed
qed

lemma refs_ok_init: "refs_ok refs_init"
  by (simp add: refs_ok_def refs_init_def)

lemma step_next:
  assumes "sint (next s) < 0" and "step c s = Inr s'"
  shows "sint (next s') < 0 \<and> sint (next s') \<le> sint (next s) \<and>
         (\<forall>n\<in>set (assigned_by c s s'). n = next s \<and> sint (next s') < sint n)"
proof (cases c)
  case (Decref p)
  with assms show ?thesis
    by (auto simp: cgopy_decref_def assigned_by_def Let_def split: option.splits if_splits)
next
  case (Incref p)
  show ?thesis
  proof (cases "refs s p")
    case (Some num)
    with Incref assms show ?thesis
      by (auto simp: cgopy_incref_def assigned_by_def Let_def)
  next
    case None
    with Incref assms have np: "\<not> 0 < sint (next s - 1)"
      and s': "s' = s\<lparr>next := next s - 1, refs := (refs s)(p \<mapsto> next s),
                     ptrs := (ptrs s)(next s \<mapsto> \<lparr>ptr = p, cnt = 1\<rparr>)\<rparr>"
      by (auto simp: cgopy_incref_def Let_def split: if_splits)
    from sint_dec [OF assms(1) np] have "sint (next s - 1) = sint (next s) - 1" .
    with s' None Incref assms(1) show ?thesis
      by (simp add: assigned_by_def)
  qed
qed

lemma assigned_below:
  "sint (next s) < 0 \<Longrightarrow>
     sorted_wrt (\<lambda>a b. sint b < sint a) (assigned cs s) \<and>
     (\<forall>n\<in>set (assigned cs s). sint n \<le> sint (next s))"
proof (induction cs arbitrary: s)
  case Nil
  then show ?case by simp
next
  case (Cons c cs)
  show ?case
  proof (cases "step c s")
    case (Inl e)
    then show ?thesis by simp
  next
    case (Inr s')
    from step_next [OF Cons.prems Inr]
    have neg: "sint (next s') < 0" and le: "sint (next s') \<le> sint (next s)"
      and by1: "\<forall>n\<in>set (assigned_by c s s'). n = next s \<and> sint (next s') < sint n"
      by auto
    from Cons.IH [OF neg]
    have srt: "sorted_wrt (\<lambda>a b. sint b < sint a) (assigned cs s')"
      and bnd: "\<forall>n\<in>set (assigned cs s'). sint n \<le> sint (next s')" by auto
    have "sorted_wrt (\<lambda>a b. sint b < sint a) (assigned_by c s s')"
      by (auto simp: assigned_by_def split: call.splits option.splits)
    moreover have "\<forall>a\<in>set (assigned_by c s s'). \<forall>b\<in>set (assigned cs s'). sint b < sint a"
      using by1 bnd by fastforce
    ultimately have "sorted_wrt (\<lambda>a b. sint b < sint a) (assigned_by c s s' @ assigned cs s')"
      using srt by (simp add: sorted_wrt_append)
    moreover have "\<forall>n\<in>set (assigned_by c s s' @ assigned cs s'). sint n \<le> sint (next s)"
      using by1 bnd le by fastforce
    ultimately show ?thesis using Inr by simp
  qed
qed

lemma sorted_wrt_sint_distinct:
  "sorted_wrt (\<lambda>a b. sint b < sint a) (xs :: int32 list) \<Longrightarrow> distinct xs"
  by (induction xs) auto

text \<open>
  Claim C4. The reference numbers given to Go objects come from a strictly decreasing,
  never reused sequence of negative numbers: along any sequence of \<open>cgopy_incref\<close> and
  \<open>cgopy_decref\<close> calls on the table \<open>init\<close> sets up, each number assigned is below
  every number assigned before it, no number is assigned twice, and every number assigned
  is at most \<open>-24\<close>, so never positive.
\<close>

theorem handle_ids_strictly_decreasing:
  "sorted_wrt (\<lambda>a b. sint b < sint a) (assigned cs refs_init) \<and>
   distinct (assigned cs refs_init) \<and>
   list_all (\<lambda>n. sint n \<le> - 24) (assigned cs refs_init)"
proof -
  have neg: "sint (next refs_init) < 0" by (simp add: refs_init_def)
  from assigned_below [OF neg, of cs]
  have a: "sorted_wrt (\<lambda>a b. sint b < sint a) (assigned cs refs_init)"
    and b: "\<forall>n\<in>set (assigned cs refs_init). sint n \<le> sint (next refs_init)" by auto
  from b have "list_all (\<lambda>n. sint n \<le> - 24) (assigned cs refs_init)"
    by (simp add: list_all_iff refs_init_def)
  with a sorted_wrt_sint_distinct [OF a] show ?thesis by simp
qed


lemma run_append:
  "run (xs @ ys) s = (case run xs s of Inl e \<Rightarrow> Inl e | Inr s' \<Rightarrow> run ys s')"
  by (induction xs arbitrary: s) (auto split: sum.splits)

text \<open>Acquiring k addresses the table has never seen, one after the other.\<close>

lemma fresh_run:
  assumes "\<forall>p\<ge>a. refs s p = None" and "sint (next s) < 0"
    and "int k \<le> sint (next s) + 2 ^ 31"
  shows "\<exists>s'. run (map Incref [a..<a + k]) s = Inr s' \<and> (\<forall>p\<ge>a + k. refs s' p = None) \<and>
           sint (next s') = sint (next s) - int k"
  using assms
proof (induction k arbitrary: a s)
  case 0
  then show ?case by simp
next
  case (Suc k)
  have fresh: "refs s a = None" using Suc.prems(1) by simp
  have above: "- (2 ^ 31) < sint (next s)" using Suc.prems(3) by simp
  let ?s1 = "s\<lparr>next := next s - 1, refs := (refs s)(a \<mapsto> next s),
                ptrs := (ptrs s)(next s \<mapsto> \<lparr>ptr = a, cnt = 1\<rparr>)\<rparr>"
  have st: "cgopy_incref a s = Inr ?s1"
    using fresh above Suc.prems(2) by (rule incref_fresh)
  have dec: "sint (next ?s1) = sint (next s) - 1"
    using sint_dec_above_min [OF above Suc.prems(2)] by simp
  have "\<forall>p\<ge>Suc a. refs ?s1 p = None" using Suc.prems(1) by simp
  moreover have "sint (next ?s1) < 0" using dec Suc.prems(2) by simp
  moreover have "int k \<le> sint (next ?s1) + 2 ^ 31" using dec Suc.prems(3) by simp
  ultimately obtain s' where s': "run (map Incref [Suc a..<Suc a + k]) ?s1 = Inr s'"
    "\<forall>p\<ge>Suc a + k. refs s' p = None" "sint (next s') = sint (next ?s1) - int k"
    using Suc.IH [of "Suc a" ?s1] by blast
  have "[a..<a + Suc k] = a # [Suc a..<Suc a + k]" by (simp add: upt_conv_Cons)
  then have "run (map Incref [a..<a + Suc k]) s = Inr s'" using st s'(1) by simp
  with s'(2,3) dec show ?case by simp
qed

text \<open>
  Claim C2, as stated, fails. Acquire does not always insert an address it does not hold:
  the table \<open>init\<close> sets up takes 2147483624 addresses, each for the first time, and the
  call for one more address panics with "refs.next underflow" and inserts nothing.
\<close>

theorem incref_underflow_counterexample:
  "run (map Incref [0..<2147483624] @ [Incref 2147483624]) refs_init =
     Inl (Panic ''refs.next underflow'')"
proof -
  have "\<exists>s'. run (map Incref [0..<0 + 2147483624]) refs_init = Inr s' \<and>
          (\<forall>p\<ge>0 + 2147483624. refs s' p = None) \<and>
          sint (next s') = sint (next refs_init) - int 2147483624"
    by (rule fresh_run) (simp_all add: refs_init_def)
  then obtain s' where s': "run (map Incref [0..<2147483624]) refs_init = Inr s'"
    "\<forall>p\<ge>2147483624. refs s' p = None" "sint (next s') = - (2 ^ 31)"
    by (auto simp: refs_init_def)
  from s'(2) have "refs s' 2147483624 = None" by simp
  from incref_underflow [OF this s'(3)] s'(1) show ?thesis
    by (simp add: run_append)
qed

lemma entries_of_fresh:
  assumes "refs_ok s" and "refs s p = None"
  shows "entries_of (s\<lparr>next := n', refs := (refs s)(p \<mapsto> next s),
                       ptrs := (ptrs s)(next s \<mapsto> \<lparr>ptr = p, cnt = c\<rparr>)\<rparr>) p =
         {(next s, \<lparr>ptr = p, cnt = c\<rparr>)}"
proof -
  have "\<forall>num d. ptrs s num = Some d \<longrightarrow> ptr d \<noteq> p"
    using refs_ok_back [OF assms(1)] assms(2) by fastforce
  then show ?thesis by (fastforce simp: entries_of_def split: if_splits)
qed

lemma entries_of_untracked:
  assumes "refs_ok s" and "refs s p = None"
  shows "entries_of (s\<lparr>next := n'\<rparr>) p = {}"
proof -
  have "\<forall>num d. ptrs s num = Some d \<longrightarrow> ptr d \<noteq> p"
    using refs_ok_back [OF assms(1)] assms(2) by fastforce
  then show ?thesis by (auto simp: entries_of_def)
qed

lemma incref_twice:
  assumes "refs s p = None" and "- (2 ^ 31) < sint (next s)" and "sint (next s) < 0"
  shows "run [Incref p, Incref p] s =
     Inr (s\<lparr>next := next s - 1, refs := (refs s)(p \<mapsto> next s),
            ptrs := (ptrs s)(next s \<mapsto> \<lparr>ptr = p, cnt = 2\<rparr>)\<rparr>)"
  using incref_fresh [OF assms] by (simp add: incref_tracked ptrs_at_def)

text \<open>
  Claim C2, amended. \<open>cgopy_incref\<close> has no result; the handle id of an address is the
  number \<open>refs.refs\<close> holds for it. For an address the table holds, the call adds one to
  the count of its entry and leaves its number alone. For an address the table does not
  hold, with \<open>next\<close> negative and above the least \<open>int32\<close>, the call gives the address
  the number \<open>next\<close>, enters it with count 1 and takes one from \<open>next\<close>; with \<open>next\<close>
  the least \<open>int32\<close> it panics. Two calls for an address that a well-formed table with
  \<open>next\<close> above the least \<open>int32\<close> does not hold leave one entry for it, with count 2,
  under the number the first call gave.
\<close>

theorem incref_table_effect:
  "(refs s p = Some num \<longrightarrow>
      cgopy_incref p s =
        Inr (s\<lparr>ptrs := (ptrs s)(num \<mapsto>
               \<lparr>ptr = ptr (ptrs_at s num), cnt = cnt (ptrs_at s num) + 1\<rparr>)\<rparr>)) \<and>
   (refs s p = None \<and> - (2 ^ 31) < sint (next s) \<and> sint (next s) < 0 \<longrightarrow>
      cgopy_incref p s =
        Inr (s\<lparr>next := next s - 1, refs := (refs s)(p \<mapsto> next s),
               ptrs := (ptrs s)(next s \<mapsto> \<lparr>ptr = p, cnt = 1\<rparr>)\<rparr>) \<and>
      sint (next s - 1) = sint (next s) - 1) \<and>
   (refs s p = None \<and> sint (next s) = - (2 ^ 31) \<longrightarrow>
      cgopy_incref p s = Inl (Panic ''refs.next underflow'')) \<and>
   (refs_ok s \<and> refs s p = None \<and> - (2 ^ 31) < sint (next s) \<longrightarrow>
      run [Incref p, Incref p] s =
        Inr (s\<lparr>next := next s - 1, refs := (refs s)(p \<mapsto> next s),
               ptrs := (ptrs s)(next s \<mapsto> \<lparr>ptr = p, cnt = 2\<rparr>)\<rparr>) \<and>
      entries_of (s\<lparr>next := next s - 1, refs := (refs s)(p \<mapsto> next s),
               ptrs := (ptrs s)(next s \<mapsto> \<lparr>ptr = p, cnt = 2\<rparr>)\<rparr>) p =
        {(next s, \<lparr>ptr = p, cnt = 2\<rparr>)})"
  using incref_tracked [of s p num] incref_fresh [of s p] sint_dec_above_min [of "next s"]
    incref_underflow [of s p] incref_twice [of s p] entries_of_fresh [where s = s and p = p and n' = "next s - 1" and c = 2]
    refs_ok_neg [of s]
  by blast

text \<open>
  The amended claim C2 on the table \<open>init\<close> sets up, for the address 7.
\<close>

theorem incref_table_effect_witness:
  "cgopy_incref 7 refs_init =
     Inr \<lparr>next = - 25, refs = [7 \<mapsto> - 24], ptrs = [- 24 \<mapsto> \<lparr>ptr = 7, cnt = 1\<rparr>]\<rparr> \<and>
   cgopy_incref 7 \<lparr>next = - 25, refs = [7 \<mapsto> - 24], ptrs = [- 24 \<mapsto> \<lparr>ptr = 7, cnt = 1\<rparr>]\<rparr> =
     Inr \<lparr>next = - 25, refs = [7 \<mapsto> - 24], ptrs = [- 24 \<mapsto> \<lparr>ptr = 7, cnt = 2\<rparr>]\<rparr> \<and>
   cgopy_incref 7 \<lparr>next = - 2147483648, refs = Map.empty, ptrs = Map.empty\<rparr> =
     Inl (Panic ''refs.next underflow'') \<and>
   run [Incref 7, Incref 7] refs_init =
     Inr \<lparr>next = - 25, refs = [7 \<mapsto> - 24], ptrs = [- 24 \<mapsto> \<lparr>ptr = 7, cnt = 2\<rparr>]\<rparr> \<and>
   entries_of \<lparr>next = - 25, refs = [7 \<mapsto> - 24], ptrs = [- 24 \<mapsto> \<lparr>ptr = 7, cnt = 2\<rparr>]\<rparr> 7 =
     {(- 24, \<lparr>ptr = 7, cnt = 2\<rparr>)}"
  using incref_table_effect [of refs_init 7 0]
    incref_table_effect
      [of "\<lparr>next = - 25, refs = [7 \<mapsto> - 24], ptrs = [- 24 \<mapsto> \<lparr>ptr = 7, cnt = 1\<rparr>]\<rparr>" 7 "- 24"]
    incref_table_effect [of "\<lparr>next = - 2147483648, refs = Map.empty, ptrs = Map.empty\<rparr>" 7 0]
    refs_ok_init
  by (simp add: refs_init_def ptrs_at_def)

lemma release_scenario:
  assumes "refs_ok s" and "refs s p = None" and "- (2 ^ 31) < sint (next s)"
  shows "run [Incref p, Incref p, Decref p] s =
           Inr (s\<lparr>next := next s - 1, refs := (refs s)(p \<mapsto> next s),
                  ptrs := (ptrs s)(next s \<mapsto> \<lparr>ptr = p, cnt = 1\<rparr>)\<rparr>)"
    and "run [Incref p, Incref p, Decref p, Decref p] s = Inr (s\<lparr>next := next s - 1\<rparr>)"
    and "run [Incref p, Incref p, Decref p, Decref p, Decref p] s =
           Inl (Panic ''cgopy: decref untracked object'')"
proof -
  have neg: "sint (next s) < 0" using assms(1) by (rule refs_ok_neg)
  have free: "ptrs s (next s) = None" using assms(1) by (rule refs_ok_next_free)
  let ?s2 = "s\<lparr>next := next s - 1, refs := (refs s)(p \<mapsto> next s),
                ptrs := (ptrs s)(next s \<mapsto> \<lparr>ptr = p, cnt = 2\<rparr>)\<rparr>"
  let ?s3 = "s\<lparr>next := next s - 1, refs := (refs s)(p \<mapsto> next s),
                ptrs := (ptrs s)(next s \<mapsto> \<lparr>ptr = p, cnt = 1\<rparr>)\<rparr>"
  let ?s4 = "s\<lparr>next := next s - 1\<rparr>"
  have r2: "run [Incref p, Incref p] s = Inr ?s2"
    using assms(2,3) neg by (rule incref_twice)
  have d1: "cgopy_decref p ?s2 = Inr ?s3"
    by (simp add: cgopy_decref_def ptrs_at_def)
  have "(refs s)(p := None) = refs s" using assms(2) by (simp add: fun_upd_idem_iff)
  moreover have "(ptrs s)(next s := None) = ptrs s" using free by (simp add: fun_upd_idem_iff)
  ultimately have d2: "cgopy_decref p ?s3 = Inr ?s4"
    by (simp add: cgopy_decref_def ptrs_at_def)
  have d3: "cgopy_decref p ?s4 = Inl (Panic ''cgopy: decref untracked object'')"
    using assms(2) by (simp add: cgopy_decref_def)
  have a: "\<And>xs. run ([Incref p, Incref p] @ xs) s = run xs ?s2"
    using r2 by (simp only: run_append sum.case)
  show "run [Incref p, Incref p, Decref p] s = Inr ?s3"
    using a [of "[Decref p]"] d1 by simp
  show "run [Incref p, Incref p, Decref p, Decref p] s = Inr ?s4"
    using a [of "[Decref p, Decref p]"] d1 d2 by simp
  show "run [Incref p, Incref p, Decref p, Decref p, Decref p] s =
           Inl (Panic ''cgopy: decref untracked object'')"
    using a [of "[Decref p, Decref p, Decref p]"] d1 d2 d3 by simp
qed

lemma sint_inc:
  assumes "sint (x::int32) < 2 ^ 31 - 1"
  shows "sint (x + 1) = sint x + 1"
proof -
  have lo: "- (2 ^ 31) \<le> sint x" using sint_ge [of x] by simp
  have "sint (x + 1) = signed_take_bit 31 (sint x + 1)"
    by (simp add: sint_word_ariths)
  moreover have "signed_take_bit 31 (sint x + 1) = sint x + 1"
    using assms lo by (simp add: signed_take_bit_int_eq_self)
  ultimately show ?thesis by simp
qed

lemma sint_dec_pos:
  assumes "0 < sint (x::int32)"
  shows "sint (x - 1) = sint x - 1"
proof -
  have "sint x < 2 ^ 31" using sint_lt [of x] by simp
  then have "signed_take_bit 31 (sint x - 1) = sint x - 1"
    using assms by (simp add: signed_take_bit_int_eq_self)
  then show ?thesis by (simp add: sint_word_ariths)
qed

text \<open>One call keeps every count between 1 and a bound that grows by one.\<close>

lemma step_counts:
  assumes ok: "refs_ok s"
    and b: "\<forall>num c. ptrs s num = Some c \<longrightarrow> 0 < sint (cnt c) \<and> sint (cnt c) \<le> int n"
    and n: "int n < 2 ^ 31 - 1"
    and st: "step cl s = Inr s'"
  shows "\<forall>num c. ptrs s' num = Some c \<longrightarrow> 0 < sint (cnt c) \<and> sint (cnt c) \<le> int (Suc n)"
proof (cases cl)
  case (Incref p)
  show ?thesis
  proof (cases "refs s p")
    case None
    with st Incref have "ptrs s' = (ptrs s)(next s \<mapsto> \<lparr>ptr = p, cnt = 1\<rparr>)"
      by (auto simp: cgopy_incref_def Let_def split: if_splits)
    with b show ?thesis by (fastforce split: if_splits)
  next
    case (Some k)
    from refs_ok_entry [OF ok Some] obtain c0 where c0: "ptrs s k = Some c0" by blast
    then have at: "ptrs_at s k = c0" by (simp add: ptrs_at_def)
    from b c0 have r: "0 < sint (cnt c0)" "sint (cnt c0) \<le> int n" by blast+
    with n have "sint (cnt c0 + 1) = sint (cnt c0) + 1" by (intro sint_inc) simp
    with r have r': "0 < sint (cnt c0 + 1)" "sint (cnt c0 + 1) \<le> int (Suc n)" by simp_all
    from st Incref Some at
    have "ptrs s' = (ptrs s)(k \<mapsto> \<lparr>ptr = ptr c0, cnt = cnt c0 + 1\<rparr>)"
      by (auto simp: cgopy_incref_def Let_def)
    with b r' show ?thesis by (fastforce split: if_splits)
  qed
next
  case (Decref p)
  show ?thesis
  proof (cases "refs s p")
    case None
    with st Decref show ?thesis by (simp add: cgopy_decref_def)
  next
    case (Some k)
    from refs_ok_entry [OF ok Some] obtain c0 where c0: "ptrs s k = Some c0" by blast
    then have at: "ptrs_at s k = c0" by (simp add: ptrs_at_def)
    from b c0 have r: "0 < sint (cnt c0)" "sint (cnt c0) \<le> int n" by blast+
    have d: "sint (cnt c0 - 1) = sint (cnt c0) - 1" using r(1) by (rule sint_dec_pos)
    show ?thesis
    proof (cases "sint (cnt c0 - 1) \<le> 0")
      case True
      with st Decref Some at have "ptrs s' = (ptrs s)(k := None)"
        by (auto simp: cgopy_decref_def Let_def)
      with b show ?thesis by (fastforce split: if_splits)
    next
      case False
      with st Decref Some at
      have "ptrs s' = (ptrs s)(k \<mapsto> \<lparr>ptr = ptr c0, cnt = cnt c0 - 1\<rparr>)"
        by (auto simp: cgopy_decref_def Let_def)
      moreover from False d r have "0 < sint (cnt c0 - 1)" "sint (cnt c0 - 1) \<le> int (Suc n)"
        by simp_all
      ultimately show ?thesis using b by (fastforce split: if_splits)
    qed
  qed
qed

lemma step_refs_ok:
  "refs_ok s \<Longrightarrow> step cl s = Inr s' \<Longrightarrow> refs_ok s'"
  by (cases cl) (auto intro: refs_ok_incref refs_ok_decref)

lemma run_counts:
  assumes "refs_ok s"
    and "\<forall>num c. ptrs s num = Some c \<longrightarrow> 0 < sint (cnt c) \<and> sint (cnt c) \<le> int n"
    and "int n + int (length calls) < 2 ^ 31"
    and "run calls s = Inr s'"
  shows "refs_ok s' \<and>
         (\<forall>num c. ptrs s' num = Some c \<longrightarrow>
            0 < sint (cnt c) \<and> sint (cnt c) \<le> int n + int (length calls))"
  using assms
proof (induction calls arbitrary: s n)
  case Nil
  then show ?case by simp
next
  case (Cons cl calls)
  from Cons.prems(4) obtain s1 where s1: "step cl s = Inr s1" "run calls s1 = Inr s'"
    by (auto split: sum.splits)
  have ok1: "refs_ok s1" using Cons.prems(1) s1(1) by (rule step_refs_ok)
  have "int n < 2 ^ 31 - 1" using Cons.prems(3) by simp
  from step_counts [OF Cons.prems(1,2) this s1(1)]
  have b1: "\<forall>num c. ptrs s1 num = Some c \<longrightarrow> 0 < sint (cnt c) \<and> sint (cnt c) \<le> int (Suc n)" .
  have "int (Suc n) + int (length calls) < 2 ^ 31" using Cons.prems(3) by simp
  from Cons.IH [OF ok1 b1 this s1(2)] show ?case by (simp add: algebra_simps)
qed

lemma reached_counts:
  assumes "run calls refs_init = Inr s" and "length calls < 2 ^ 31"
  shows "refs_ok s \<and>
         (\<forall>num c. ptrs s num = Some c \<longrightarrow> 0 < sint (cnt c) \<and> sint (cnt c) \<le> int (length calls))"
proof -
  have "\<forall>num c. ptrs refs_init num = Some c \<longrightarrow> 0 < sint (cnt c) \<and> sint (cnt c) \<le> int 0"
    by (simp add: refs_init_def)
  moreover have "int 0 + int (length calls) < 2 ^ 31" using assms(2) by simp
  ultimately show ?thesis using run_counts [OF refs_ok_init _ _ assms(1), of 0] by simp
qed

text \<open>Acquiring an address the table holds, k times.\<close>

lemma incref_again:
  assumes "refs s p = Some num" and "ptrs s num = Some c"
  shows "run (replicate k (Incref p)) s =
           Inr (s\<lparr>ptrs := (ptrs s)(num \<mapsto> \<lparr>ptr = ptr c, cnt = cnt c + of_nat k\<rparr>)\<rparr>)"
  using assms
proof (induction k arbitrary: s c)
  case 0
  then have "(ptrs s)(num \<mapsto> \<lparr>ptr = ptr c, cnt = cnt c\<rparr>) = ptrs s"
    by (simp add: fun_upd_idem_iff)
  then show ?case by simp
next
  case (Suc k)
  let ?c1 = "\<lparr>ptr = ptr c, cnt = cnt c + 1\<rparr>"
  let ?s1 = "s\<lparr>ptrs := (ptrs s)(num \<mapsto> ?c1)\<rparr>"
  have st: "cgopy_incref p s = Inr ?s1"
    using Suc.prems by (simp add: incref_tracked ptrs_at_def)
  have "run (replicate k (Incref p)) ?s1 =
          Inr (?s1\<lparr>ptrs := (ptrs ?s1)(num \<mapsto> \<lparr>ptr = ptr ?c1, cnt = cnt ?c1 + of_nat k\<rparr>)\<rparr>)"
    by (rule Suc.IH) (simp_all add: Suc.prems)
  then have ih: "run (replicate k (Incref p)) ?s1 =
          Inr (s\<lparr>ptrs := (ptrs s)(num \<mapsto> \<lparr>ptr = ptr c, cnt = cnt c + 1 + of_nat k\<rparr>)\<rparr>)"
    by simp
  have "cnt c + 1 + of_nat k = cnt c + of_nat (Suc k)" by simp
  with ih have "run (replicate k (Incref p)) ?s1 =
          Inr (s\<lparr>ptrs := (ptrs s)(num \<mapsto> \<lparr>ptr = ptr c, cnt = cnt c + of_nat (Suc k)\<rparr>)\<rparr>)"
    by (simp only:)
  with st show ?case by (simp only: replicate_Suc run.simps step.simps sum.case)
qed

lemma decref_general:
  assumes "refs s p = Some num" and "ptrs s num = Some c"
  shows "cgopy_decref p s =
     Inr (if sint (cnt c - 1) \<le> 0
          then s\<lparr>ptrs := (ptrs s)(num := None), refs := (refs s)(p := None)\<rparr>
          else s\<lparr>ptrs := (ptrs s)(num \<mapsto> \<lparr>ptr = ptr c, cnt = cnt c - 1\<rparr>)\<rparr>)"
  using assms by (simp add: cgopy_decref_def ptrs_at_def Let_def)

lemma decref_reached:
  assumes "run calls refs_init = Inr s" and "length calls < 2 ^ 31" and "refs s p = Some num"
  shows "\<exists>c. ptrs s num = Some c \<and> 0 < sint (cnt c) \<and> sint (cnt c - 1) = sint (cnt c) - 1 \<and>
           cgopy_decref p s =
             Inr (if cnt c = 1
                  then s\<lparr>ptrs := (ptrs s)(num := None), refs := (refs s)(p := None)\<rparr>
                  else s\<lparr>ptrs := (ptrs s)(num \<mapsto> \<lparr>ptr = ptr c, cnt = cnt c - 1\<rparr>)\<rparr>)"
proof -
  from reached_counts [OF assms(1,2)] have ok: "refs_ok s"
    and b: "\<forall>num c. ptrs s num = Some c \<longrightarrow> 0 < sint (cnt c) \<and> sint (cnt c) \<le> int (length calls)"
    by blast+
  from refs_ok_entry [OF ok assms(3)] obtain c where c: "ptrs s num = Some c" by blast
  with b have pos: "0 < sint (cnt c)" by blast
  from decref_tracked [OF assms(3) c pos] sint_dec_pos [OF pos] c pos show ?thesis by blast
qed

text \<open>

  Claim C3, amended. \<open>cgopy_decref\<close> on an address the table does not hold panics. On an
  address the table holds it takes one from the count, an \<open>int32\<close>, and removes the entry
  (from both maps) exactly when the result is zero or less. In a table reached from the
  one \<open>init\<close> sets up by fewer than \<open>2^31\<close> calls, every count is at least 1, so there the
  entry is removed exactly when the count goes from 1 to zero, and otherwise the count
  goes down by one. After two acquires of an address that a well-formed table with \<open>next\<close>
  above the least \<open>int32\<close> does not hold, one release leaves the entry with count 1, the
  second removes it, and a third panics.
\<close>

theorem decref_table_effect:
  "(refs s p = None \<longrightarrow> cgopy_decref p s = Inl (Panic ''cgopy: decref untracked object'')) \<and>
   (refs s p = Some num \<and> ptrs s num = Some c \<longrightarrow>
      cgopy_decref p s =
        Inr (if sint (cnt c - 1) \<le> 0
             then s\<lparr>ptrs := (ptrs s)(num := None), refs := (refs s)(p := None)\<rparr>
             else s\<lparr>ptrs := (ptrs s)(num \<mapsto> \<lparr>ptr = ptr c, cnt = cnt c - 1\<rparr>)\<rparr>)) \<and>
   (run calls refs_init = Inr s \<and> length calls < 2 ^ 31 \<and> refs s p = Some num \<longrightarrow>
      (\<exists>c. ptrs s num = Some c \<and> 0 < sint (cnt c) \<and> sint (cnt c - 1) = sint (cnt c) - 1 \<and>
         cgopy_decref p s =
           Inr (if cnt c = 1
                then s\<lparr>ptrs := (ptrs s)(num := None), refs := (refs s)(p := None)\<rparr>
                else s\<lparr>ptrs := (ptrs s)(num \<mapsto> \<lparr>ptr = ptr c, cnt = cnt c - 1\<rparr>)\<rparr>))) \<and>
   (refs_ok s \<and> refs s p = None \<and> - (2 ^ 31) < sint (next s) \<longrightarrow>
      run [Incref p, Incref p, Decref p] s =
        Inr (s\<lparr>next := next s - 1, refs := (refs s)(p \<mapsto> next s),
               ptrs := (ptrs s)(next s \<mapsto> \<lparr>ptr = p, cnt = 1\<rparr>)\<rparr>) \<and>
      run [Incref p, Incref p, Decref p, Decref p] s = Inr (s\<lparr>next := next s - 1\<rparr>) \<and>
      entries_of (s\<lparr>next := next s - 1\<rparr>) p = {} \<and>
      run [Incref p, Incref p, Decref p, Decref p, Decref p] s =
        Inl (Panic ''cgopy: decref untracked object''))"
  using decref_untracked [of s p] decref_general [of s p num c] decref_reached [of calls s p num]
    release_scenario [of s p]
    entries_of_untracked [where s = s and p = p and n' = "next s - 1"]
  by blast

lemma acquired_often:
  "run (replicate 2147483649 (Incref 7)) refs_init =
     Inr \<lparr>next = - 25, refs = [7 \<mapsto> - 24], ptrs = [- 24 \<mapsto> \<lparr>ptr = 7, cnt = 2147483649\<rparr>]\<rparr>"
proof -
  let ?s1 = "\<lparr>next = - 25, refs = [7 \<mapsto> - 24], ptrs = [- 24 \<mapsto> \<lparr>ptr = 7, cnt = 1\<rparr>]\<rparr> :: refs_t"
  have st: "cgopy_incref 7 refs_init = Inr ?s1"
    by (simp add: cgopy_incref_def refs_init_def Let_def)
  have "run (replicate 2147483648 (Incref 7)) ?s1 =
          Inr (?s1\<lparr>ptrs := (ptrs ?s1)(- 24 \<mapsto> \<lparr>ptr = ptr \<lparr>ptr = 7, cnt = 1 :: int32\<rparr>,
                  cnt = cnt \<lparr>ptr = 7 :: nat, cnt = 1 :: int32\<rparr> + of_nat 2147483648\<rparr>)\<rparr>)"
    by (rule incref_again) simp_all
  then have r: "run (replicate 2147483648 (Incref 7)) ?s1 =
      Inr \<lparr>next = - 25, refs = [7 \<mapsto> - 24], ptrs = [- 24 \<mapsto> \<lparr>ptr = 7, cnt = 2147483649\<rparr>]\<rparr>"
    by simp
  have "replicate 2147483649 (Incref 7) = Incref 7 # replicate 2147483648 (Incref 7)"
    by (simp add: replicate_Suc [symmetric] del: replicate_Suc replicate.simps)
  with st r show ?thesis by (simp only: run.simps step.simps sum.case)
qed

text \<open>

  Claim C3, as stated, fails. \<open>cgopy_incref\<close> adds to the count without a guard, so the
  count wraps. After \<open>2^31 + 1\<close> acquires of the address 7 its count reads \<open>-2147483647\<close>,
  and one release removes the entry, with the count at \<open>-2147483648\<close> and not at zero,
  while \<open>2^31\<close> acquires are not released.
\<close>

theorem decref_count_wraps_counterexample:
  "run (replicate 2147483649 (Incref 7)) refs_init =
     Inr \<lparr>next = - 25, refs = [7 \<mapsto> - 24], ptrs = [- 24 \<mapsto> \<lparr>ptr = 7, cnt = 2147483649\<rparr>]\<rparr> \<and>
   sint (2147483649 :: int32) = - 2147483647 \<and>
   run (replicate 2147483649 (Incref 7) @ [Decref 7]) refs_init =
     Inr \<lparr>next = - 25, refs = Map.empty, ptrs = Map.empty\<rparr>"
proof -
  have a: "sint (2147483649 :: int32) = - 2147483647" by simp
  have b: "sint (2147483649 - 1 :: int32) \<le> 0" by simp
  have "cgopy_decref 7
          \<lparr>next = - 25, refs = [7 \<mapsto> - 24], ptrs = [- 24 \<mapsto> \<lparr>ptr = 7, cnt = 2147483649\<rparr>]\<rparr> =
        Inr \<lparr>next = - 25, refs = Map.empty, ptrs = Map.empty\<rparr>"
    using b by (simp add: cgopy_decref_def ptrs_at_def Let_def)
  with acquired_often a show ?thesis by (simp add: run_append)
qed

text \<open>

  The amended claim C3 on the table \<open>init\<close> sets up, for the address 7.
\<close>

theorem decref_table_effect_witness:
  "cgopy_decref 7 refs_init = Inl (Panic ''cgopy: decref untracked object'') \<and>
   cgopy_decref 7 \<lparr>next = - 25, refs = [7 \<mapsto> - 24], ptrs = [- 24 \<mapsto> \<lparr>ptr = 7, cnt = 2\<rparr>]\<rparr> =
     Inr \<lparr>next = - 25, refs = [7 \<mapsto> - 24], ptrs = [- 24 \<mapsto> \<lparr>ptr = 7, cnt = 1\<rparr>]\<rparr> \<and>
   cgopy_decref 7 \<lparr>next = - 25, refs = [7 \<mapsto> - 24], ptrs = [- 24 \<mapsto> \<lparr>ptr = 7, cnt = 1\<rparr>]\<rparr> =
     Inr \<lparr>next = - 25, refs = Map.empty, ptrs = Map.empty\<rparr> \<and>
   run [Incref 7, Incref 7] refs_init =
     Inr \<lparr>next = - 25, refs = [7 \<mapsto> - 24], ptrs = [- 24 \<mapsto> \<lparr>ptr = 7, cnt = 2\<rparr>]\<rparr> \<and>
   run [Incref 7, Incref 7, Decref 7, Decref 7] refs_init =
     Inr \<lparr>next = - 25, refs = Map.empty, ptrs = Map.empty\<rparr> \<and>
   entries_of \<lparr>next = - 25, refs = Map.empty, ptrs = Map.empty\<rparr> 7 = {} \<and>
   run [Incref 7, Incref 7, Decref 7, Decref 7, Decref 7] refs_init =
     Inl (Panic ''cgopy: decref untracked object'')"
proof -
  let ?s2 = "\<lparr>next = - 25, refs = [7 \<mapsto> - 24], ptrs = [- 24 \<mapsto> \<lparr>ptr = 7, cnt = 2\<rparr>]\<rparr> :: refs_t"
  let ?s1 = "\<lparr>next = - 25, refs = [7 \<mapsto> - 24], ptrs = [- 24 \<mapsto> \<lparr>ptr = 7, cnt = 1\<rparr>]\<rparr> :: refs_t"
  have r: "run [Incref 7, Incref 7] refs_init = Inr ?s2"
    by (simp add: cgopy_incref_def refs_init_def Let_def ptrs_at_def)
  have l: "length [Incref 7, Incref 7] < (2::nat) ^ 31" by simp
  from decref_table_effect [of refs_init 7 0 "\<lparr>ptr = 0, cnt = 0\<rparr>" "[]"]
  have 1: "cgopy_decref 7 refs_init = Inl (Panic ''cgopy: decref untracked object'')"
    by (simp add: refs_init_def)
  from decref_table_effect [of ?s2 7 "- 24" "\<lparr>ptr = 7, cnt = 2\<rparr>" "[Incref 7, Incref 7]"] r l
  have 2: "cgopy_decref 7 ?s2 = Inr ?s1" by simp
  from decref_table_effect [of ?s1 7 "- 24" "\<lparr>ptr = 7, cnt = 1\<rparr>" "[]"]
  have 3: "cgopy_decref 7 ?s1 = Inr \<lparr>next = - 25, refs = Map.empty, ptrs = Map.empty\<rparr>"
    by simp
  from decref_table_effect [of refs_init 7 0 "\<lparr>ptr = 0, cnt = 0\<rparr>" "[]"] refs_ok_init
  have 4: "run [Incref 7, Incref 7, Decref 7, Decref 7] refs_init =
       Inr \<lparr>next = - 25, refs = Map.empty, ptrs = Map.empty\<rparr>"
    "entries_of \<lparr>next = - 25, refs = Map.empty, ptrs = Map.empty\<rparr> 7 = {}"
    "run [Incref 7, Incref 7, Decref 7, Decref 7, Decref 7] refs_init =
       Inl (Panic ''cgopy: decref untracked object'')"
    by (simp_all add: refs_init_def)
  from 1 2 3 4 r show ?thesis by (intro conjI)
qed

text \<open>
  Claim C4 on a sequence of calls that acquires, releases and acquires again.
\<close>

theorem handle_ids_witness:
  "assigned [Incref 5, Incref 7, Incref 5, Decref 5, Decref 5, Incref 5] refs_init =
     [- 24, - 25, - 26] \<and>
   sorted_wrt (\<lambda>a b. sint b < sint a) [- 24, - 25, - 26 :: int32] \<and>
   distinct [- 24, - 25, - 26 :: int32]"
proof -
  have a: "assigned [Incref 5, Incref 7, Incref 5, Decref 5, Decref 5, Incref 5] refs_init =
     [- 24, - 25, - 26]"
    by (simp add: cgopy_incref_def cgopy_decref_def refs_init_def assigned_by_def ptrs_at_def
        Let_def)
  show ?thesis
    using handle_ids_strictly_decreasing
      [of "[Incref 5, Incref 7, Incref 5, Decref 5, Decref 5, Incref 5]"]
    unfolding a by simp
qed

section \<open>Properties of the signature analysis and of the documentation lookup\<close>

lemmas ex_defs = ex_extern_def ex_func_def ex_Add_def ex_Foo_def ex_Hi_def ex_NewFoo_def
  ex_Bad2_def ex_Bad3_def ex_Fail_def ex_Max_def ex_doc_def ex_tpackage_def ex_package_def
  sig_of_def ex_symbol_def ex_var_def

lemma newFuncFrom_ok:
  assumes "result_arity X ob (ts_results sig) = Inr (haserr, ret)"
    and "opkg ob = Some pk" and "getDoc X p parent ob = Inr d"
  shows "map_sum id (\<lambda>f. (f_err f, f_ret f)) (newFuncFrom X p parent ob sig) = Inr (haserr, ret)"
    and "map_sum id (\<lambda>f. map_option sig_ret (f_sig f)) (newFuncFrom X p parent ob sig) =
           Inr (Some (map (newVarFrom X p) (ts_results sig)))"
  using assms
  by (cases pk; simp add: newFuncFrom_def Let_def newSignatureFrom_def newVarsFrom_def)+

lemma newFuncFrom_fail:
  assumes "result_arity X ob (ts_results sig) = Inl e"
  shows "newFuncFrom X p parent ob sig = Inl e"
  using assms by (simp add: newFuncFrom_def)

text \<open>
  Claim C1. \<open>newFuncFrom\<close> follows the rules on the number of results. A signature
  with three or more results, and one with two results whose second is not of the error
  type, is refused with an error value that carries the object. Otherwise, once the
  object's package is read and its documentation found, the \<open>Func\<close> has neither value
  nor error flag for no result; the error flag and no value for one result of the error
  type; that result as its value, without the flag, for one result of another type; the
  first result as its value and the error flag for two results.
\<close>

theorem newFuncFrom_result_arity:
  "(3 \<le> length (ts_results sig) \<longrightarrow>
      newFuncFrom X p parent ob sig = Inl (Errorf ''bind: too many results to return: %v'' ob)) \<and>
   (length (ts_results sig) = 2 \<and> \<not> isErrorType X (snd (ts_results sig ! 1)) \<longrightarrow>
      newFuncFrom X p parent ob sig =
        Inl (Errorf ''bind: second result value must be of type error: %s'' ob)) \<and>
   (opkg ob = Some pk \<and> getDoc X p parent ob = Inr d \<longrightarrow>
      (length (ts_results sig) = 0 \<longrightarrow>
         map_sum id (\<lambda>f. (f_err f, f_ret f)) (newFuncFrom X p parent ob sig) =
           Inr (False, None)) \<and>
      (length (ts_results sig) = 1 \<and> isErrorType X (snd (ts_results sig ! 0)) \<longrightarrow>
         map_sum id (\<lambda>f. (f_err f, f_ret f)) (newFuncFrom X p parent ob sig) =
           Inr (True, None)) \<and>
      (length (ts_results sig) = 1 \<and> \<not> isErrorType X (snd (ts_results sig ! 0)) \<longrightarrow>
         map_sum id (\<lambda>f. (f_err f, f_ret f)) (newFuncFrom X p parent ob sig) =
           Inr (False, Some (snd (ts_results sig ! 0)))) \<and>
      (length (ts_results sig) = 2 \<and> isErrorType X (snd (ts_results sig ! 1)) \<longrightarrow>
         map_sum id (\<lambda>f. (f_err f, f_ret f)) (newFuncFrom X p parent ob sig) =
           Inr (True, Some (snd (ts_results sig ! 0)))))"
proof (intro conjI impI)
  assume "3 \<le> length (ts_results sig)"
  then have "result_arity X ob (ts_results sig) =
      Inl (Errorf ''bind: too many results to return: %v'' ob)"
    by (auto simp: result_arity_def)
  then show "newFuncFrom X p parent ob sig =
      Inl (Errorf ''bind: too many results to return: %v'' ob)"
    by (rule newFuncFrom_fail)
next
  assume "length (ts_results sig) = 2 \<and> \<not> isErrorType X (snd (ts_results sig ! 1))"
  then have "result_arity X ob (ts_results sig) =
      Inl (Errorf ''bind: second result value must be of type error: %s'' ob)"
    by (simp add: result_arity_def)
  then show "newFuncFrom X p parent ob sig =
      Inl (Errorf ''bind: second result value must be of type error: %s'' ob)"
    by (rule newFuncFrom_fail)
next
  assume ok: "opkg ob = Some pk \<and> getDoc X p parent ob = Inr d"
    and "length (ts_results sig) = 0"
  then have "result_arity X ob (ts_results sig) = Inr (False, None)"
    by (simp add: result_arity_def)
  with ok show "map_sum id (\<lambda>f. (f_err f, f_ret f)) (newFuncFrom X p parent ob sig) =
      Inr (False, None)"
    by (simp add: newFuncFrom_ok)
next
  assume ok: "opkg ob = Some pk \<and> getDoc X p parent ob = Inr d"
    and "length (ts_results sig) = 1 \<and> isErrorType X (snd (ts_results sig ! 0))"
  then have "result_arity X ob (ts_results sig) = Inr (True, None)"
    by (simp add: result_arity_def)
  with ok show "map_sum id (\<lambda>f. (f_err f, f_ret f)) (newFuncFrom X p parent ob sig) =
      Inr (True, None)"
    by (simp add: newFuncFrom_ok)
next
  assume ok: "opkg ob = Some pk \<and> getDoc X p parent ob = Inr d"
    and "length (ts_results sig) = 1 \<and> \<not> isErrorType X (snd (ts_results sig ! 0))"
  then have "result_arity X ob (ts_results sig) = Inr (False, Some (snd (ts_results sig ! 0)))"
    by (simp add: result_arity_def)
  with ok show "map_sum id (\<lambda>f. (f_err f, f_ret f)) (newFuncFrom X p parent ob sig) =
      Inr (False, Some (snd (ts_results sig ! 0)))"
    by (simp add: newFuncFrom_ok)
next
  assume ok: "opkg ob = Some pk \<and> getDoc X p parent ob = Inr d"
    and "length (ts_results sig) = 2 \<and> isErrorType X (snd (ts_results sig ! 1))"
  then have "result_arity X ob (ts_results sig) = Inr (True, Some (snd (ts_results sig ! 0)))"
    by (simp add: result_arity_def)
  with ok show "map_sum id (\<lambda>f. (f_err f, f_ret f)) (newFuncFrom X p parent ob sig) =
      Inr (True, Some (snd (ts_results sig ! 0)))"
    by (simp add: newFuncFrom_ok)
qed


lemma ex_getDoc_Add:
  "getDoc ex_extern ex_package [] ex_Add =
     Inr (''Add(int a, int b) int'' @ nl @ nl @ ''Add adds.'')"
  by (simp add: getDoc_def ex_defs or_empty_def)

lemma ex_getDoc_Fail: "getDoc ex_extern ex_package [] ex_Fail = Inr ''Fail() error''"
  by (simp add: getDoc_def ex_defs or_empty_def)

lemma ex_getDoc_NewFoo: "getDoc ex_extern ex_package [] ex_NewFoo = Inr ''NewFoo() Foo, error''"
  by (simp add: getDoc_def ex_defs or_empty_def)

lemma ex_getDoc_NewFoo_Foo:
  "getDoc ex_extern ex_package ''Foo'' ex_NewFoo =
     Inr (''NewFoo() Foo, error'' @ nl @ nl @ ''NewFoo makes a Foo.'')"
  by (simp add: getDoc_def ex_defs or_empty_def)

text \<open>
  Claim C1 on six functions of the example, one for each rule.
\<close>

theorem newFuncFrom_result_arity_witness:
  "newFuncFrom ex_extern ex_package [] ex_Bad3 (sig_of ex_Bad3) =
     Inl (Errorf ''bind: too many results to return: %v'' ex_Bad3) \<and>
   newFuncFrom ex_extern ex_package [] ex_Bad2 (sig_of ex_Bad2) =
     Inl (Errorf ''bind: second result value must be of type error: %s'' ex_Bad2) \<and>
   map_sum id (\<lambda>f. (f_err f, f_ret f))
       (newFuncFrom ex_extern ex_package [] ex_Hi (sig_of ex_Hi)) = Inr (False, None) \<and>
   map_sum id (\<lambda>f. (f_err f, f_ret f))
       (newFuncFrom ex_extern ex_package [] ex_Fail (sig_of ex_Fail)) = Inr (True, None) \<and>
   map_sum id (\<lambda>f. (f_err f, f_ret f))
       (newFuncFrom ex_extern ex_package [] ex_Add (sig_of ex_Add)) =
     Inr (False, Some (Basic ''int'')) \<and>
   map_sum id (\<lambda>f. (f_err f, f_ret f))
       (newFuncFrom ex_extern ex_package [] ex_NewFoo (sig_of ex_NewFoo)) =
     Inr (True, Some (Named ''Foo''))"
  using newFuncFrom_result_arity [of "sig_of ex_Bad3" ex_extern ex_package "[]" ex_Bad3]
      newFuncFrom_result_arity [of "sig_of ex_Bad2" ex_extern ex_package "[]" ex_Bad2]
      newFuncFrom_result_arity [of "sig_of ex_Hi" ex_extern ex_package "[]" ex_Hi
        "(''p'', ''ex/p'')" "''Hi() ''"]
      newFuncFrom_result_arity [of "sig_of ex_Fail" ex_extern ex_package "[]" ex_Fail
        "(''p'', ''ex/p'')" "''Fail() error''"]
      newFuncFrom_result_arity [of "sig_of ex_Add" ex_extern ex_package "[]" ex_Add
        "(''p'', ''ex/p'')" "''Add(int a, int b) int'' @ nl @ nl @ ''Add adds.''"]
      newFuncFrom_result_arity [of "sig_of ex_NewFoo" ex_extern ex_package "[]" ex_NewFoo
        "(''p'', ''ex/p'')" "''NewFoo() Foo, error''"]
  by (simp add: ex_defs getDoc_def or_empty_def)











section \<open>Properties of the generated wrappers\<close>









section \<open>Package.process\<close>

text \<open>
  What each pass of \<open>process\<close> does to the package and to the maps of functions and
  types, for any order of iteration.
\<close>

lemma GoType_ctors [simp]: "GoType (t\<lparr>t_ctors := cs\<rparr>) = GoType t"
  by (simp add: GoType_def)

lemma promote_effect:
  "promote X p tname order (t, funcs) = Inr (t', funcs') \<Longrightarrow>
     t_sym t' = t_sym t \<and>
     set (t_ctors t) \<subseteq> set (t_ctors t') \<and>
     (\<forall>n. funcs' n =
        (if n \<in> set order \<and> (\<exists>f. funcs n = Some f \<and> f_ret f = Some (GoType t))
         then None else funcs n)) \<and>
     (\<forall>n f. n \<in> set order \<and> funcs n = Some f \<and> f_ret f = Some (GoType t) \<longrightarrow>
        (\<exists>ob d. Lookup (tp_scope (p_pkg p)) n = Some ob \<and> getDoc X p tname ob = Inr d \<and>
                f\<lparr>f_doc := d, f_ctor := True\<rparr> \<in> set (t_ctors t')))"
proof (induction order arbitrary: t funcs)
  case Nil
  then show ?case by simp
next
  case (Cons name rest)
  show ?case
  proof (cases "\<exists>fct. funcs name = Some fct \<and> f_ret fct = Some (GoType t)")
    case False
    then have "promote X p tname rest (t, funcs) = Inr (t', funcs')"
      using Cons.prems by (auto split: option.splits if_splits)
    from Cons.IH [OF this] False show ?thesis by auto
  next
    case True
    then obtain fct where fct: "funcs name = Some fct" "f_ret fct = Some (GoType t)" by blast
    with Cons.prems obtain ob d where ob: "Lookup (tp_scope (p_pkg p)) name = Some ob"
      and d: "getDoc X p tname ob = Inr d"
      and rec: "promote X p tname rest
                  (t\<lparr>t_ctors := t_ctors t @ [fct\<lparr>f_doc := d, f_ctor := True\<rparr>]\<rparr>,
                   funcs(name := None)) = Inr (t', funcs')"
      by (auto split: option.splits sum.splits)
    from Cons.IH [OF rec]
    have ih1: "t_sym t' = t_sym t"
      and ih2: "set (t_ctors t @ [fct\<lparr>f_doc := d, f_ctor := True\<rparr>]) \<subseteq> set (t_ctors t')"
      and ih3: "\<forall>n. funcs' n =
        (if n \<in> set rest \<and> (\<exists>f. (funcs(name := None)) n = Some f \<and> f_ret f = Some (GoType t))
         then None else (funcs(name := None)) n)"
      and ih4: "\<forall>n f. n \<in> set rest \<and> (funcs(name := None)) n = Some f \<and>
                  f_ret f = Some (GoType t) \<longrightarrow>
        (\<exists>ob d. Lookup (tp_scope (p_pkg p)) n = Some ob \<and> getDoc X p tname ob = Inr d \<and>
                f\<lparr>f_doc := d, f_ctor := True\<rparr> \<in> set (t_ctors t'))"
      by simp_all
    have a: "set (t_ctors t) \<subseteq> set (t_ctors t')" using ih2 by auto
    have b: "\<forall>n. funcs' n =
        (if n \<in> set (name # rest) \<and> (\<exists>f. funcs n = Some f \<and> f_ret f = Some (GoType t))
         then None else funcs n)"
      using ih3 fct by auto
    have c: "\<forall>n f. n \<in> set (name # rest) \<and> funcs n = Some f \<and> f_ret f = Some (GoType t) \<longrightarrow>
        (\<exists>ob d. Lookup (tp_scope (p_pkg p)) n = Some ob \<and> getDoc X p tname ob = Inr d \<and>
                f\<lparr>f_doc := d, f_ctor := True\<rparr> \<in> set (t_ctors t'))"
    proof (intro allI impI)
      fix n f
      assume h: "n \<in> set (name # rest) \<and> funcs n = Some f \<and> f_ret f = Some (GoType t)"
      show "\<exists>ob d. Lookup (tp_scope (p_pkg p)) n = Some ob \<and> getDoc X p tname ob = Inr d \<and>
                f\<lparr>f_doc := d, f_ctor := True\<rparr> \<in> set (t_ctors t')"
      proof (cases "n = name")
        case True
        with h fct have "f = fct" by simp
        with True ob d ih2 show ?thesis by auto
      next
        case False
        with h ih4 show ?thesis by auto
      qed
    qed
    from ih1 a b c show ?thesis by blast
  qed
qed

lemma add_meths_effect:
  "add_meths X p tname meths t = Inr t' \<Longrightarrow> t_sym t' = t_sym t \<and> t_ctors t' = t_ctors t"
proof (induction meths arbitrary: t)
  case Nil
  then show ?case by simp
next
  case (Cons meth meths)
  show ?case
  proof (cases "oexported (sel_obj meth)")
    case False
    with Cons show ?thesis by simp
  next
    case True
    with Cons.prems obtain sig m where
      "add_meths X p tname meths
         (t\<lparr>t_meths := t_meths t @ [m],
            t_prots := (if isStringer X (sel_obj meth) then t_prots t OR ProtoStringer
                        else t_prots t)\<rparr>) = Inr t'"
      by (auto split: option.splits sum.splits)
    from Cons.IH [OF this] show ?thesis by simp
  qed
qed

lemma GoType_sym: "t_sym t' = t_sym t \<Longrightarrow> GoType t' = GoType t"
  by (simp add: GoType_def)

lemma Package_addType_fields [simp]:
  "p_funcs (Package_addType t p) = p_funcs p"
  "p_consts (Package_addType t p) = p_consts p"
  "p_vars (Package_addType t p) = p_vars p"
  "p_doc (Package_addType t p) = p_doc p"
  "p_pkg (Package_addType t p) = p_pkg p"
  "p_types (Package_addType t p) = p_types p @ [t]"
  by (simp_all add: Package_addType_def)

lemma process_types_effect:
  "process_types X fo order (p, funcs, typs) = Inr (p', funcs', typs') \<Longrightarrow>
     (p_funcs p' = p_funcs p \<and> p_consts p' = p_consts p \<and> p_vars p' = p_vars p \<and>
      p_doc p' = p_doc p \<and> p_pkg p' = p_pkg p) \<and>
     set (p_types p) \<subseteq> set (p_types p') \<and>
     map t_sym (p_types p') =
       map t_sym (p_types p) @ List.map_filter (\<lambda>tn. map_option t_sym (typs tn)) order \<and>
     (\<forall>tn. map_option t_sym (typs' tn) = map_option t_sym (typs tn)) \<and>
     (\<forall>n. funcs' n =
        (if \<exists>tn ty f. tn \<in> set order \<and> map_option GoType (typs tn) = Some ty \<and>
                        n \<in> set (fo tn) \<and> funcs n = Some f \<and> f_ret f = Some ty
         then None else funcs n)) \<and>
     (\<forall>n f tn ty. tn \<in> set order \<and> map_option GoType (typs tn) = Some ty \<and>
                   n \<in> set (fo tn) \<and> funcs n = Some f \<and> f_ret f = Some ty \<longrightarrow>
        (\<exists>t'\<in>set (p_types p'). GoType t' = ty \<and>
           (\<exists>pc tn' ob d. p_doc pc = p_doc p \<and> map_option GoType (typs tn') = Some ty \<and>
              Lookup (tp_scope (p_pkg p)) n = Some ob \<and>
              getDoc X pc tn' ob = Inr d \<and> f\<lparr>f_doc := d, f_ctor := True\<rparr> \<in> set (t_ctors t'))))"
proof (induction order arbitrary: p funcs typs)
  case Nil
  then show ?case by (simp add: List.map_filter_simps)
next
  case (Cons tname rest)
  show ?case
  proof (cases "typs tname")
    case None
    then have rec: "process_types X fo rest (p, funcs, typs) = Inr (p', funcs', typs')"
      using Cons.prems by simp
    from None have mf: "List.map_filter (\<lambda>tn. map_option t_sym (typs tn)) (tname # rest) =
        List.map_filter (\<lambda>tn. map_option t_sym (typs tn)) rest"
      by (simp add: List.map_filter_simps)
    have eq: "\<And>tn ty. (tn \<in> set (tname # rest) \<and> map_option GoType (typs tn) = Some ty) =
        (tn \<in> set rest \<and> map_option GoType (typs tn) = Some ty)"
      using None by auto
    from Cons.IH [OF rec]
    have i1: "p_funcs p' = p_funcs p \<and> p_consts p' = p_consts p \<and> p_vars p' = p_vars p \<and>
              p_doc p' = p_doc p \<and> p_pkg p' = p_pkg p"
      and i2: "set (p_types p) \<subseteq> set (p_types p')"
      and i3: "map t_sym (p_types p') =
         map t_sym (p_types p) @ List.map_filter (\<lambda>tn. map_option t_sym (typs tn)) rest"
      and i4: "\<forall>tn. map_option t_sym (typs' tn) = map_option t_sym (typs tn)"
      and i5: "\<forall>n. funcs' n =
        (if \<exists>tn ty f. tn \<in> set rest \<and> map_option GoType (typs tn) = Some ty \<and>
                        n \<in> set (fo tn) \<and> funcs n = Some f \<and> f_ret f = Some ty
         then None else funcs n)"
      and i6: "\<forall>n f tn ty. tn \<in> set rest \<and> map_option GoType (typs tn) = Some ty \<and>
                   n \<in> set (fo tn) \<and> funcs n = Some f \<and> f_ret f = Some ty \<longrightarrow>
        (\<exists>t'\<in>set (p_types p'). GoType t' = ty \<and>
           (\<exists>pc tn' ob d. p_doc pc = p_doc p \<and> map_option GoType (typs tn') = Some ty \<and>
              Lookup (tp_scope (p_pkg p)) n = Some ob \<and>
              getDoc X pc tn' ob = Inr d \<and> f\<lparr>f_doc := d, f_ctor := True\<rparr> \<in> set (t_ctors t')))"
      by blast+
    have c3: "map t_sym (p_types p') =
       map t_sym (p_types p) @ List.map_filter (\<lambda>tn. map_option t_sym (typs tn)) (tname # rest)"
      using i3 mf by simp
    have c5: "\<forall>n. funcs' n =
        (if \<exists>tn ty f. tn \<in> set (tname # rest) \<and> map_option GoType (typs tn) = Some ty \<and>
                        n \<in> set (fo tn) \<and> funcs n = Some f \<and> f_ret f = Some ty
         then None else funcs n)"
    proof
      fix n
      have "(\<exists>tn ty f. tn \<in> set (tname # rest) \<and> map_option GoType (typs tn) = Some ty \<and>
                        n \<in> set (fo tn) \<and> funcs n = Some f \<and> f_ret f = Some ty) =
            (\<exists>tn ty f. tn \<in> set rest \<and> map_option GoType (typs tn) = Some ty \<and>
                        n \<in> set (fo tn) \<and> funcs n = Some f \<and> f_ret f = Some ty)"
        using None by auto
      then have e: "(\<exists>tn ty f. tn \<in> set (tname # rest) \<and> map_option GoType (typs tn) = Some ty \<and>
                        n \<in> set (fo tn) \<and> funcs n = Some f \<and> f_ret f = Some ty) =
            (\<exists>tn ty f. tn \<in> set rest \<and> map_option GoType (typs tn) = Some ty \<and>
                        n \<in> set (fo tn) \<and> funcs n = Some f \<and> f_ret f = Some ty)" .
      have a: "funcs' n =
          (if \<exists>tn ty f. tn \<in> set rest \<and> map_option GoType (typs tn) = Some ty \<and>
                        n \<in> set (fo tn) \<and> funcs n = Some f \<and> f_ret f = Some ty
           then None else funcs n)" using i5 by (rule spec)
      show "funcs' n =
        (if \<exists>tn ty f. tn \<in> set (tname # rest) \<and> map_option GoType (typs tn) = Some ty \<and>
                        n \<in> set (fo tn) \<and> funcs n = Some f \<and> f_ret f = Some ty
         then None else funcs n)" by (simp only: a e)
    qed
    have c6: "\<forall>n f tn ty. tn \<in> set (tname # rest) \<and> map_option GoType (typs tn) = Some ty \<and>
                   n \<in> set (fo tn) \<and> funcs n = Some f \<and> f_ret f = Some ty \<longrightarrow>
        (\<exists>t'\<in>set (p_types p'). GoType t' = ty \<and>
           (\<exists>pc tn' ob d. p_doc pc = p_doc p \<and> map_option GoType (typs tn') = Some ty \<and>
              Lookup (tp_scope (p_pkg p)) n = Some ob \<and>
              getDoc X pc tn' ob = Inr d \<and> f\<lparr>f_doc := d, f_ctor := True\<rparr> \<in> set (t_ctors t')))"
    proof (intro allI impI)
      fix n f tn ty
      assume h: "tn \<in> set (tname # rest) \<and> map_option GoType (typs tn) = Some ty \<and>
                   n \<in> set (fo tn) \<and> funcs n = Some f \<and> f_ret f = Some ty"
      with None have "tn \<in> set rest" by auto
      with h i6 show "\<exists>t'\<in>set (p_types p'). GoType t' = ty \<and>
           (\<exists>pc tn' ob d. p_doc pc = p_doc p \<and> map_option GoType (typs tn') = Some ty \<and>
              Lookup (tp_scope (p_pkg p)) n = Some ob \<and>
              getDoc X pc tn' ob = Inr d \<and> f\<lparr>f_doc := d, f_ctor := True\<rparr> \<in> set (t_ctors t'))"
        by blast
    qed
    from i1 i2 c3 i4 c5 c6 show ?thesis by blast
  next
    case (Some t)
    with Cons.prems obtain t1 funcs1 st t2 where
      pr: "promote X p tname (fo tname) (t, funcs) = Inr (t1, funcs1)"
      and at: "addType X (Pointer (GoType t1)) (p_syms p) = Inr st"
      and am: "add_meths X (p\<lparr>p_syms := st\<rparr>) tname (NewMethodSet X (Pointer (GoType t1))) t1 = Inr t2"
      and rec: "process_types X fo rest
                  (Package_addType t2 (p\<lparr>p_syms := st\<rparr>), funcs1, typs(tname \<mapsto> t1)) =
                Inr (p', funcs', typs')"
      by (auto simp: Let_def split: sum.splits prod.splits)
    from promote_effect [OF pr]
    have p1: "t_sym t1 = t_sym t"
      and p3: "\<forall>n. funcs1 n =
        (if n \<in> set (fo tname) \<and> (\<exists>f. funcs n = Some f \<and> f_ret f = Some (GoType t))
         then None else funcs n)"
      and p4: "\<forall>n f. n \<in> set (fo tname) \<and> funcs n = Some f \<and> f_ret f = Some (GoType t) \<longrightarrow>
        (\<exists>ob d. Lookup (tp_scope (p_pkg p)) n = Some ob \<and> getDoc X p tname ob = Inr d \<and>
                f\<lparr>f_doc := d, f_ctor := True\<rparr> \<in> set (t_ctors t1))"
      by blast+
    from add_meths_effect [OF am] have m1: "t_sym t2 = t_sym t1" and m2: "t_ctors t2 = t_ctors t1"
      by simp_all
    have g1: "GoType t1 = GoType t" using p1 by (rule GoType_sym)
    have g2: "GoType t2 = GoType t" using m1 p1 by (simp add: GoType_def)
    let ?p2 = "Package_addType t2 (p\<lparr>p_syms := st\<rparr>)"
    let ?typs1 = "typs(tname \<mapsto> t1)"
    have sy: "(\<lambda>tn. map_option t_sym (?typs1 tn)) = (\<lambda>tn. map_option t_sym (typs tn))"
      using Some p1 by (auto simp: fun_eq_iff)
    have gt: "\<And>tn. map_option GoType (?typs1 tn) = map_option GoType (typs tn)"
      using Some g1 by auto
    from Cons.IH [OF rec]
    have j1: "p_funcs p' = p_funcs ?p2 \<and> p_consts p' = p_consts ?p2 \<and> p_vars p' = p_vars ?p2 \<and>
              p_doc p' = p_doc ?p2 \<and> p_pkg p' = p_pkg ?p2"
      and i2: "set (p_types ?p2) \<subseteq> set (p_types p')"
      and i3: "map t_sym (p_types p') =
         map t_sym (p_types ?p2) @ List.map_filter (\<lambda>tn. map_option t_sym (?typs1 tn)) rest"
      and i4: "\<forall>tn. map_option t_sym (typs' tn) = map_option t_sym (?typs1 tn)"
      and j5: "\<forall>n. funcs' n =
        (if \<exists>tn ty f. tn \<in> set rest \<and> map_option GoType (?typs1 tn) = Some ty \<and>
                        n \<in> set (fo tn) \<and> funcs1 n = Some f \<and> f_ret f = Some ty
         then None else funcs1 n)"
      and j6: "\<forall>n f tn ty. tn \<in> set rest \<and> map_option GoType (?typs1 tn) = Some ty \<and>
                   n \<in> set (fo tn) \<and> funcs1 n = Some f \<and> f_ret f = Some ty \<longrightarrow>
        (\<exists>t'\<in>set (p_types p'). GoType t' = ty \<and>
           (\<exists>pc tn' ob d. p_doc pc = p_doc ?p2 \<and> map_option GoType (?typs1 tn') = Some ty \<and>
              Lookup (tp_scope (p_pkg ?p2)) n = Some ob \<and>
              getDoc X pc tn' ob = Inr d \<and> f\<lparr>f_doc := d, f_ctor := True\<rparr> \<in> set (t_ctors t')))"
      by blast+
    have i1: "p_funcs p' = p_funcs p \<and> p_consts p' = p_consts p \<and> p_vars p' = p_vars p \<and>
              p_doc p' = p_doc p \<and> p_pkg p' = p_pkg p"
      using j1 by simp
    have i5: "\<forall>n. funcs' n =
        (if \<exists>tn ty f. tn \<in> set rest \<and> map_option GoType (typs tn) = Some ty \<and>
                        n \<in> set (fo tn) \<and> funcs1 n = Some f \<and> f_ret f = Some ty
         then None else funcs1 n)"
      using j5 unfolding gt .
    have i6: "\<forall>n f tn ty. tn \<in> set rest \<and> map_option GoType (typs tn) = Some ty \<and>
                   n \<in> set (fo tn) \<and> funcs1 n = Some f \<and> f_ret f = Some ty \<longrightarrow>
        (\<exists>t'\<in>set (p_types p'). GoType t' = ty \<and>
           (\<exists>pc tn' ob d. p_doc pc = p_doc p \<and> map_option GoType (typs tn') = Some ty \<and>
              Lookup (tp_scope (p_pkg p)) n = Some ob \<and>
              getDoc X pc tn' ob = Inr d \<and> f\<lparr>f_doc := d, f_ctor := True\<rparr> \<in> set (t_ctors t')))"
      using j6 unfolding gt by simp
    have t2in: "t2 \<in> set (p_types p')" using i2 by auto
    have c2: "set (p_types p) \<subseteq> set (p_types p')" using i2 by auto
    have c3: "map t_sym (p_types p') =
       map t_sym (p_types p) @ List.map_filter (\<lambda>tn. map_option t_sym (typs tn)) (tname # rest)"
      using i3 Some m1 p1 unfolding sy by (simp add: List.map_filter_simps)
    have c4: "\<forall>tn. map_option t_sym (typs' tn) = map_option t_sym (typs tn)"
      using i4 sy by (simp add: fun_eq_iff)
    have c5: "\<forall>n. funcs' n =
        (if \<exists>tn ty f. tn \<in> set (tname # rest) \<and> map_option GoType (typs tn) = Some ty \<and>
                        n \<in> set (fo tn) \<and> funcs n = Some f \<and> f_ret f = Some ty
         then None else funcs n)"
    proof
      fix n
      show "funcs' n =
        (if \<exists>tn ty f. tn \<in> set (tname # rest) \<and> map_option GoType (typs tn) = Some ty \<and>
                        n \<in> set (fo tn) \<and> funcs n = Some f \<and> f_ret f = Some ty
         then None else funcs n)"
      proof (cases "n \<in> set (fo tname) \<and> (\<exists>f. funcs n = Some f \<and> f_ret f = Some (GoType t))")
        case True
        have "funcs1 n =
          (if n \<in> set (fo tname) \<and> (\<exists>f. funcs n = Some f \<and> f_ret f = Some (GoType t))
           then None else funcs n)" using p3 by (rule spec)
        then have "funcs1 n = None" using True by simp
        then have "funcs' n = None" using i5 by simp
        moreover have "\<exists>tn ty f. tn \<in> set (tname # rest) \<and> map_option GoType (typs tn) = Some ty \<and>
                        n \<in> set (fo tn) \<and> funcs n = Some f \<and> f_ret f = Some ty"
          using True Some by auto
        ultimately show ?thesis by simp
      next
        case False
        have "funcs1 n =
          (if n \<in> set (fo tname) \<and> (\<exists>f. funcs n = Some f \<and> f_ret f = Some (GoType t))
           then None else funcs n)" using p3 by (rule spec)
        then have f1: "funcs1 n = funcs n" by (simp only: False if_False)
        have e: "(\<exists>tn ty f. tn \<in> set (tname # rest) \<and> map_option GoType (typs tn) = Some ty \<and>
                        n \<in> set (fo tn) \<and> funcs n = Some f \<and> f_ret f = Some ty) =
              (\<exists>tn ty f. tn \<in> set rest \<and> map_option GoType (typs tn) = Some ty \<and>
                        n \<in> set (fo tn) \<and> funcs n = Some f \<and> f_ret f = Some ty)"
          using False Some by auto
        have a: "funcs' n =
          (if \<exists>tn ty f. tn \<in> set rest \<and> map_option GoType (typs tn) = Some ty \<and>
                        n \<in> set (fo tn) \<and> funcs1 n = Some f \<and> f_ret f = Some ty
           then None else funcs1 n)" using i5 by (rule spec)
        show ?thesis by (simp only: a f1 e)
      qed
    qed
    have c6: "\<forall>n f tn ty. tn \<in> set (tname # rest) \<and> map_option GoType (typs tn) = Some ty \<and>
                   n \<in> set (fo tn) \<and> funcs n = Some f \<and> f_ret f = Some ty \<longrightarrow>
        (\<exists>t'\<in>set (p_types p'). GoType t' = ty \<and>
           (\<exists>pc tn' ob d. p_doc pc = p_doc p \<and> map_option GoType (typs tn') = Some ty \<and>
              Lookup (tp_scope (p_pkg p)) n = Some ob \<and>
              getDoc X pc tn' ob = Inr d \<and> f\<lparr>f_doc := d, f_ctor := True\<rparr> \<in> set (t_ctors t')))"
    proof (intro allI impI)
      fix n f tn ty
      assume h: "tn \<in> set (tname # rest) \<and> map_option GoType (typs tn) = Some ty \<and>
                   n \<in> set (fo tn) \<and> funcs n = Some f \<and> f_ret f = Some ty"
      show "\<exists>t'\<in>set (p_types p'). GoType t' = ty \<and>
           (\<exists>pc tn' ob d. p_doc pc = p_doc p \<and> map_option GoType (typs tn') = Some ty \<and>
              Lookup (tp_scope (p_pkg p)) n = Some ob \<and>
              getDoc X pc tn' ob = Inr d \<and> f\<lparr>f_doc := d, f_ctor := True\<rparr> \<in> set (t_ctors t'))"
      proof (cases "n \<in> set (fo tname) \<and> f_ret f = Some (GoType t)")
        case True
        with h p4 obtain ob d where o1: "Lookup (tp_scope (p_pkg p)) n = Some ob"
          and o2: "getDoc X p tname ob = Inr d"
          and o3: "f\<lparr>f_doc := d, f_ctor := True\<rparr> \<in> set (t_ctors t1)"
          by blast
        have o4: "GoType t2 = ty" using True h g2 by simp
        have o5: "map_option GoType (typs tname) = Some ty" using Some True h by simp
        have "\<exists>pc tn' ob d. p_doc pc = p_doc p \<and> map_option GoType (typs tn') = Some ty \<and>
              Lookup (tp_scope (p_pkg p)) n = Some ob \<and>
              getDoc X pc tn' ob = Inr d \<and> f\<lparr>f_doc := d, f_ctor := True\<rparr> \<in> set (t_ctors t2)"
          using o1 o2 o3 o5 m2
          by (intro exI [of _ p] exI [of _ tname] exI [of _ ob] exI [of _ d]) simp
        with o4 t2in show ?thesis by blast
      next
        case False
        with h Some have tn: "tn \<in> set rest" by auto
        have "funcs1 n =
          (if n \<in> set (fo tname) \<and> (\<exists>f. funcs n = Some f \<and> f_ret f = Some (GoType t))
           then None else funcs n)" using p3 by (rule spec)
        moreover have "\<not> (n \<in> set (fo tname) \<and> (\<exists>f. funcs n = Some f \<and> f_ret f = Some (GoType t)))"
          using False h by auto
        ultimately have "funcs1 n = Some f" using h by (simp only: if_False)
        with tn h i6 show ?thesis by blast
      qed
    qed
    from i1 c2 c3 c4 c5 c6 show ?thesis by blast
  qed
qed

lemma add_funcs_effect:
  "p_funcs (add_funcs order funcs p) = p_funcs p @ List.map_filter funcs order \<and>
   p_types (add_funcs order funcs p) = p_types p \<and>
   p_consts (add_funcs order funcs p) = p_consts p \<and>
   p_vars (add_funcs order funcs p) = p_vars p"
  by (induction order arbitrary: p)
    (auto simp: List.map_filter_simps Package_addFunc_def split: option.splits)

lemma attach_methods_effect:
  "attach_methods X goname ms p = Inr p' \<Longrightarrow>
     p_funcs p' = p_funcs p \<and> p_types p' = p_types p \<and> p_consts p' = p_consts p \<and>
     p_vars p' = p_vars p"
proof (induction ms arbitrary: p)
  case Nil
  then show ?case by simp
next
  case (Cons m ms)
  show ?case
  proof (cases "oexported m")
    case False
    with Cons show ?thesis by simp
  next
    case True
    with Cons.prems obtain doc msym where
      "attach_methods X goname ms (p\<lparr>p_syms := setDoc X msym doc (p_syms p)\<rparr>) = Inr p'"
      by (auto split: sum.splits option.splits)
    from Cons.IH [OF this] show ?thesis by simp
  qed
qed

lemma attach_docs_effect:
  "attach_docs X ns p = Inr p' \<Longrightarrow>
     p_funcs p' = p_funcs p \<and> p_types p' = p_types p \<and> p_consts p' = p_consts p \<and>
     p_vars p' = p_vars p"
proof (induction ns arbitrary: p)
  case Nil
  then show ?case by simp
next
  case (Cons n ns)
  from Cons.prems obtain s where s: "syms X (p_syms p) n = Some s"
    by (auto split: option.splits)
  show ?case
  proof (cases "isNamed X s \<and> (\<exists>nm. sym_gotype s = Named nm)")
    case False
    then have "attach_docs X ns p = Inr p'"
      using Cons.prems s by (auto split: gotype.splits if_splits)
    from Cons.IH [OF this] show ?thesis .
  next
    case True
    with Cons.prems s obtain p1 where
      a: "attach_methods X (sym_goname s) (Methods X (sym_gotype s)) p = Inr p1"
      and r: "attach_docs X ns p1 = Inr p'"
      by (auto split: sum.splits)
    from attach_methods_effect [OF a] Cons.IH [OF r] show ?thesis by simp
  qed
qed

lemma add_symbols_effect:
  "add_symbols X obs p = Inr p' \<Longrightarrow>
     p_funcs p' = p_funcs p \<and> p_types p' = p_types p \<and> p_consts p' = p_consts p \<and>
     p_vars p' = p_vars p \<and> p_doc p' = p_doc p \<and> p_pkg p' = p_pkg p"
proof (induction obs arbitrary: p)
  case Nil
  then show ?case by simp
next
  case (Cons ob obs)
  show ?case
  proof (cases "oexported ob")
    case False
    with Cons show ?thesis by simp
  next
    case True
    with Cons.prems obtain st where
      "add_symbols X obs (p\<lparr>p_n := p_n p + 1, p_syms := st\<rparr>) = Inr p'"
      by (auto split: sum.splits)
    from Cons.IH [OF this] show ?thesis by simp
  qed
qed

lemma newType_effect:
  "newType X p ob = Inr (t, p1) \<Longrightarrow>
     p_funcs p1 = p_funcs p \<and> p_types p1 = p_types p \<and> p_doc p1 = p_doc p \<and> p_pkg p1 = p_pkg p"
  by (auto simp: newType_def Let_def split: option.splits sum.splits)

lemma newFuncFrom_name:
  "newFuncFrom X p parent ob sig = Inr f \<Longrightarrow> f_name f = oname ob"
  by (auto simp: newFuncFrom_def Let_def split: sum.splits option.splits prod.splits)

lemma collect_effect:
  "collect X obs (p, funcs, typs) = Inr (p', funcs', typs') \<Longrightarrow>
     \<forall>n f. funcs n = Some f \<longrightarrow> f_name f = n \<Longrightarrow>
     p_funcs p' = p_funcs p \<and> p_types p' = p_types p \<and> p_doc p' = p_doc p \<and>
     p_pkg p' = p_pkg p \<and> (\<forall>n f. funcs' n = Some f \<longrightarrow> f_name f = n)"
proof (induction obs arbitrary: p funcs typs)
  case Nil
  then show ?case by simp
next
  case (Cons ob obs)
  show ?case
  proof (cases "oexported ob")
    case False
    then have "collect X obs (p, funcs, typs) = Inr (p', funcs', typs')"
      using Cons.prems(1) by simp
    from Cons.IH [OF this Cons.prems(2)] show ?thesis .
  next
    case True
    show ?thesis
    proof (cases "okind ob")
      case ConstObj
      with True Cons.prems(1) obtain c where
        "collect X obs (Package_addConst c p, funcs, typs) = Inr (p', funcs', typs')"
        by (auto split: sum.splits)
      from Cons.IH [OF this Cons.prems(2)] show ?thesis by (simp add: Package_addConst_def)
    next
      case VarObj
      with True Cons.prems(1) have
        "collect X obs (Package_addVar (newVarFrom X p (oname ob, otype ob)) p, funcs, typs) =
           Inr (p', funcs', typs')"
        by simp
      from Cons.IH [OF this Cons.prems(2)] show ?thesis by (simp add: Package_addVar_def)
    next
      case FuncObj
      with True Cons.prems(1) obtain sig f where nf: "newFuncFrom X p [] ob sig = Inr f"
        and r: "collect X obs (p, funcs(oname ob \<mapsto> f), typs) = Inr (p', funcs', typs')"
        by (auto split: sum.splits option.splits)
      have "\<forall>n g. (funcs(oname ob \<mapsto> f)) n = Some g \<longrightarrow> f_name g = n"
        using Cons.prems(2) newFuncFrom_name [OF nf] by auto
      from Cons.IH [OF r this] show ?thesis .
    next
      case TypeNameObj
      with True Cons.prems(1) obtain t p1 where nt: "newType X p ob = Inr (t, p1)"
        and r: "collect X obs (p1, funcs, typs(oname ob \<mapsto> t)) = Inr (p', funcs', typs')"
        by (auto split: sum.splits)
      from Cons.IH [OF r Cons.prems(2)] newType_effect [OF nt] show ?thesis by simp
    next
      case OtherObj
      with True Cons.prems(1) show ?thesis by simp
    qed
  qed
qed

lemma classify_effect:
  assumes "classify X p = Inr (p2, funcs, typs)"
  shows "p_funcs p2 = p_funcs p" and "p_types p2 = p_types p" and "p_doc p2 = p_doc p"
    and "p_pkg p2 = p_pkg p" and "\<forall>n f. funcs n = Some f \<longrightarrow> f_name f = n"
proof -
  from assms obtain p1 where a: "add_symbols X (tp_scope (p_pkg p)) p = Inr p1"
    and c: "collect X (tp_scope (p_pkg p)) (p1, Map.empty, Map.empty) = Inr (p2, funcs, typs)"
    by (auto simp: classify_def split: sum.splits)
  have e: "\<forall>n f. (Map.empty :: string \<rightharpoonup> func) n = Some f \<longrightarrow> f_name f = n" by simp
  from add_symbols_effect [OF a] collect_effect [OF c e]
  show "p_funcs p2 = p_funcs p" and "p_types p2 = p_types p" and "p_doc p2 = p_doc p"
    and "p_pkg p2 = p_pkg p" and "\<forall>n f. funcs n = Some f \<longrightarrow> f_name f = n"
    by simp_all
qed

lemma process_effect:
  assumes cl: "classify X p = Inr (p2, funcs, typs)"
    and vs: "valid_schedule sch funcs typs"
    and pr: "process X sch p = Inr p'"
  shows "p_funcs p' = p_funcs p @ List.map_filter (kept funcs typs) (rest_order sch)"
    and "map t_sym (p_types p') =
           map t_sym (p_types p) @
           List.map_filter (\<lambda>tn. map_option t_sym (typs tn)) (typs_order sch)"
    and "p_consts p' = p_consts p2" and "p_vars p' = p_vars p2"
    and "\<forall>n f tn t. funcs n = Some f \<and> typs tn = Some t \<and> f_ret f = Some (GoType t) \<longrightarrow>
          (\<exists>t'\<in>set (p_types p'). GoType t' = GoType t \<and>
             (\<exists>pc tn' ob d. p_doc pc = p_doc p \<and>
                map_option GoType (typs tn') = Some (GoType t) \<and>
                Lookup (tp_scope (p_pkg p)) n = Some ob \<and>
                getDoc X pc tn' ob = Inr d \<and> f\<lparr>f_doc := d, f_ctor := True\<rparr> \<in> set (t_ctors t')))"
proof -
  from pr cl obtain p3 funcs1 typs1 where
    pt: "process_types X (funcs_order sch) (typs_order sch) (p2, funcs, typs) =
           Inr (p3, funcs1, typs1)"
    and ad: "attach_docs X (names X (p_syms (add_funcs (rest_order sch) funcs1 p3)))
               (add_funcs (rest_order sch) funcs1 p3) = Inr p'"
    by (auto simp: process_def Let_def split: sum.splits)
  note ce = classify_effect [OF cl]
  from vs have v1: "set (typs_order sch) = dom typs"
    and v2: "\<And>tn. set (funcs_order sch tn) = dom funcs"
    by (auto simp: valid_schedule_def range_of_def)
  from process_types_effect [OF pt]
  have e1: "p_funcs p3 = p_funcs p2" "p_consts p3 = p_consts p2" "p_vars p3 = p_vars p2"
      "p_doc p3 = p_doc p2" "p_pkg p3 = p_pkg p2"
    and e3: "map t_sym (p_types p3) =
       map t_sym (p_types p2) @
       List.map_filter (\<lambda>tn. map_option t_sym (typs tn)) (typs_order sch)"
    and e5: "\<forall>n. funcs1 n =
        (if \<exists>tn ty f. tn \<in> set (typs_order sch) \<and> map_option GoType (typs tn) = Some ty \<and>
                        n \<in> set (funcs_order sch tn) \<and> funcs n = Some f \<and> f_ret f = Some ty
         then None else funcs n)"
    and e6: "\<forall>n f tn ty. tn \<in> set (typs_order sch) \<and> map_option GoType (typs tn) = Some ty \<and>
                   n \<in> set (funcs_order sch tn) \<and> funcs n = Some f \<and> f_ret f = Some ty \<longrightarrow>
        (\<exists>t'\<in>set (p_types p3). GoType t' = ty \<and>
           (\<exists>pc tn' ob d. p_doc pc = p_doc p2 \<and> map_option GoType (typs tn') = Some ty \<and>
              Lookup (tp_scope (p_pkg p2)) n = Some ob \<and>
              getDoc X pc tn' ob = Inr d \<and> f\<lparr>f_doc := d, f_ctor := True\<rparr> \<in> set (t_ctors t')))"
    by blast+
  have k: "funcs1 = kept funcs typs"
  proof
    fix n
    have a: "funcs1 n =
        (if \<exists>tn ty f. tn \<in> set (typs_order sch) \<and> map_option GoType (typs tn) = Some ty \<and>
                        n \<in> set (funcs_order sch tn) \<and> funcs n = Some f \<and> f_ret f = Some ty
         then None else funcs n)" using e5 by (rule spec)
    have b: "(\<exists>tn ty f. tn \<in> set (typs_order sch) \<and> map_option GoType (typs tn) = Some ty \<and>
                n \<in> set (funcs_order sch tn) \<and> funcs n = Some f \<and> f_ret f = Some ty) =
             (\<exists>f. funcs n = Some f \<and> returns_type typs f)"
      unfolding v1 v2 returns_type_def by (auto simp: dom_def)
    show "funcs1 n = kept funcs typs n"
      unfolding a b kept_def by (cases "funcs n") auto
  qed
  from add_funcs_effect [of "rest_order sch" funcs1 p3] attach_docs_effect [OF ad]
  have f1: "p_funcs p' = p_funcs p3 @ List.map_filter funcs1 (rest_order sch)"
    and f2: "p_types p' = p_types p3" and f3: "p_consts p' = p_consts p3"
    and f4: "p_vars p' = p_vars p3"
    by simp_all
  show "p_funcs p' = p_funcs p @ List.map_filter (kept funcs typs) (rest_order sch)"
    using f1 e1 ce k by simp
  show "map t_sym (p_types p') =
           map t_sym (p_types p) @
           List.map_filter (\<lambda>tn. map_option t_sym (typs tn)) (typs_order sch)"
    using f2 e3 ce by simp
  show "p_consts p' = p_consts p2" using f3 e1 by simp
  show "p_vars p' = p_vars p2" using f4 e1 by simp
  show "\<forall>n f tn t. funcs n = Some f \<and> typs tn = Some t \<and> f_ret f = Some (GoType t) \<longrightarrow>
          (\<exists>t'\<in>set (p_types p'). GoType t' = GoType t \<and>
             (\<exists>pc tn' ob d. p_doc pc = p_doc p \<and>
                map_option GoType (typs tn') = Some (GoType t) \<and>
                Lookup (tp_scope (p_pkg p)) n = Some ob \<and>
                getDoc X pc tn' ob = Inr d \<and> f\<lparr>f_doc := d, f_ctor := True\<rparr> \<in> set (t_ctors t')))"
  proof (intro allI impI)
    fix n f tn t
    assume h: "funcs n = Some f \<and> typs tn = Some t \<and> f_ret f = Some (GoType t)"
    then have "tn \<in> set (typs_order sch)" "n \<in> set (funcs_order sch tn)"
      "map_option GoType (typs tn) = Some (GoType t)"
      unfolding v1 v2 by auto
    with h e6 have "\<exists>t'\<in>set (p_types p3). GoType t' = GoType t \<and>
           (\<exists>pc tn' ob d. p_doc pc = p_doc p2 \<and> map_option GoType (typs tn') = Some (GoType t) \<and>
              Lookup (tp_scope (p_pkg p2)) n = Some ob \<and>
              getDoc X pc tn' ob = Inr d \<and> f\<lparr>f_doc := d, f_ctor := True\<rparr> \<in> set (t_ctors t'))"
      by blast
    then show "\<exists>t'\<in>set (p_types p'). GoType t' = GoType t \<and>
             (\<exists>pc tn' ob d. p_doc pc = p_doc p \<and>
                map_option GoType (typs tn') = Some (GoType t) \<and>
                Lookup (tp_scope (p_pkg p)) n = Some ob \<and>
                getDoc X pc tn' ob = Inr d \<and> f\<lparr>f_doc := d, f_ctor := True\<rparr> \<in> set (t_ctors t'))"
      unfolding f2 ce by simp
  qed
qed

lemmas process_defs = process_def classify_def NewPackage_def newFuncFrom_def result_arity_def
  newSignatureFrom_def newVarsFrom_def newSignature_def newType_def getDoc_def or_empty_def
  Lookup_def Package_addType_def Package_addFunc_def Package_addConst_def Package_addVar_def
  GoType_def GoName_def ImportPath_def Let_def zero_Func_def ProtoStringer_def
  ex_schedule_1_def ex_schedule_2_def

lemma ex_process_1:
  "map_sum id (\<lambda>p. (map f_name (p_funcs p),
                     map (\<lambda>t. (GoName t, map f_name (t_ctors t), map f_ctor (t_ctors t),
                                map f_doc (t_ctors t))) (p_types p)))
     (process ex_extern ex_schedule_1 ex_package) =
   Inr ([''Add'', ''Hi''],
        [(''Foo'', [''NewFoo''], [True],
          [''NewFoo() Foo, error'' @ nl @ nl @ ''NewFoo makes a Foo.''])])"
  by (simp add: process_defs ex_defs)

lemma kept_name:
  assumes "\<forall>n f. funcs n = Some f \<longrightarrow> f_name f = n"
    and "g \<in> set (List.map_filter (kept funcs typs) order)"
  shows "funcs (f_name g) = Some g \<and> \<not> returns_type typs g"
proof -
  from assms(2) obtain m where "kept funcs typs m = Some g"
    by (auto simp: List.map_filter_def)
  then have "funcs m = Some g" "\<not> returns_type typs g"
    by (auto simp: kept_def split: option.splits if_splits)
  with assms(1) show ?thesis by auto
qed

text \<open>

  Claim C5, amended. Promotion of constructors runs over the whole classified set, after
  every object of the scope has been visited. Starting from an empty list of functions,
  every free function whose \<open>Return()\<close> is the Go type of a classified type is absent
  from the package's list of functions, which holds exactly the other functions, and it
  is in the constructor list of a type of that Go type in the package's list of types,
  with the constructor flag set. Its documentation is not carried over: it is looked up
  anew by \<open>getDoc\<close> under the name of the type.
\<close>

theorem constructors_promoted:
  assumes "classify X p = Inr (p2, funcs, typs)" and "valid_schedule sch funcs typs"
    and "process X sch p = Inr p'" and "p_funcs p = []"
    and "funcs name = Some f" and "typs tname = Some t" and "f_ret f = Some (GoType t)"
  shows "name \<notin> f_name ` set (p_funcs p') \<and>
         p_funcs p' = List.map_filter (kept funcs typs) (rest_order sch) \<and>
         (\<exists>t'\<in>set (p_types p'). GoType t' = GoType t \<and>
            (\<exists>pc tn ob d. p_doc pc = p_doc p \<and>
               map_option GoType (typs tn) = Some (GoType t) \<and>
               Lookup (tp_scope (p_pkg p)) name = Some ob \<and>
               getDoc X pc tn ob = Inr d \<and>
               f\<lparr>f_doc := d, f_ctor := True\<rparr> \<in> set (t_ctors t')))"
proof -
  note pe = process_effect [OF assms(1,2,3)]
  note ce = classify_effect [OF assms(1)]
  have fs: "p_funcs p' = List.map_filter (kept funcs typs) (rest_order sch)"
    using pe(1) assms(4) by simp
  have rt: "returns_type typs f" using assms(6,7) by (auto simp: returns_type_def)
  have "name \<notin> f_name ` set (p_funcs p')"
  proof
    assume "name \<in> f_name ` set (p_funcs p')"
    then obtain g where g: "g \<in> set (List.map_filter (kept funcs typs) (rest_order sch))"
      and n: "f_name g = name" unfolding fs by auto
    from kept_name [OF ce(5) g] n assms(5) rt show False by simp
  qed
  moreover from pe(5) assms(5,6,7)
  have "\<exists>t'\<in>set (p_types p'). GoType t' = GoType t \<and>
            (\<exists>pc tn ob d. p_doc pc = p_doc p \<and>
               map_option GoType (typs tn) = Some (GoType t) \<and>
               Lookup (tp_scope (p_pkg p)) name = Some ob \<and>
               getDoc X pc tn ob = Inr d \<and>
               f\<lparr>f_doc := d, f_ctor := True\<rparr> \<in> set (t_ctors t'))"
    by blast
  ultimately show ?thesis using fs by blast
qed




lemma ex_classify:
  "\<exists>p2 funcs typs. classify ex_extern ex_package = Inr (p2, funcs, typs) \<and>
     valid_schedule ex_schedule_1 funcs typs \<and> valid_schedule ex_schedule_2 funcs typs \<and>
     funcs ''NewFoo'' = Some ex_NewFoo_Func \<and>
     map_option GoType (typs ''Foo'') = Some (Named ''Foo'')"
  by (simp add: process_defs ex_defs valid_schedule_def range_of_def ex_NewFoo_Func_def)
    (auto)


lemma map_sum_Inr_D:
  "map_sum id g r = Inr v \<Longrightarrow> \<exists>q. r = Inr q \<and> g q = v"
  by (cases r) simp_all


text \<open>

  Claim C5, as stated, fails. In the example, the documentation lists \<open>NewFoo\<close> under
  the type \<open>Foo\<close>. As a free function \<open>NewFoo\<close> has the signature line alone for its
  documentation; once promoted it has the signature line and the text found under
  \<open>Foo\<close>.
\<close>

theorem constructors_promoted_counterexample:
  "map_sum id (\<lambda>(p, funcs, typs). map_option f_doc (funcs ''NewFoo''))
     (classify ex_extern ex_package) = Inr (Some ''NewFoo() Foo, error'') \<and>
   map_sum id (\<lambda>p. map (\<lambda>t. (GoName t, map f_name (t_ctors t), map f_doc (t_ctors t))) (p_types p))
     (process ex_extern ex_schedule_1 ex_package) =
   Inr [(''Foo'', [''NewFoo''], [''NewFoo() Foo, error'' @ nl @ nl @ ''NewFoo makes a Foo.''])]"
  by (simp add: process_defs ex_defs)

text \<open>

  The amended claim C5 on the example: \<open>Foo\<close> has exactly one constructor, \<open>NewFoo\<close>,
  with the flag set, and the list of functions holds \<open>Add\<close> and \<open>Hi\<close> only.
\<close>

theorem constructors_promoted_witness:
  "process ex_extern ex_schedule_1 ex_package \<in> range Inr \<and>
   map_sum id (\<lambda>p. ''NewFoo'' \<in> f_name ` set (p_funcs p))
     (process ex_extern ex_schedule_1 ex_package) = Inr False \<and>
   map_sum id (\<lambda>p. (map f_name (p_funcs p),
                     map (\<lambda>t. (GoName t, map f_name (t_ctors t), map f_ctor (t_ctors t))) (p_types p)))
     (process ex_extern ex_schedule_1 ex_package) =
   Inr ([''Add'', ''Hi''], [(''Foo'', [''NewFoo''], [True])])"
proof -
  from ex_classify obtain p2 funcs typs t where
    c: "classify ex_extern ex_package = Inr (p2, funcs, typs)"
    and v: "valid_schedule ex_schedule_1 funcs typs"
    and f: "funcs ''NewFoo'' = Some ex_NewFoo_Func"
    and t: "typs ''Foo'' = Some t" and g: "GoType t = Named ''Foo''"
    by auto
  from map_sum_Inr_D [OF ex_process_1] obtain q where
    q: "process ex_extern ex_schedule_1 ex_package = Inr q"
    and r: "map f_name (p_funcs q) = [''Add'', ''Hi'']"
      "map (\<lambda>t. (GoName t, map f_name (t_ctors t), map f_ctor (t_ctors t), map f_doc (t_ctors t)))
         (p_types q) =
       [(''Foo'', [''NewFoo''], [True], [''NewFoo() Foo, error'' @ nl @ nl @ ''NewFoo makes a Foo.''])]"
    by auto
  have e: "p_funcs ex_package = []" by (simp add: ex_package_def)
  have h: "f_ret ex_NewFoo_Func = Some (GoType t)" by (simp add: ex_NewFoo_Func_def g)
  from constructors_promoted [OF c v q e f t h]
  have "''NewFoo'' \<notin> f_name ` set (p_funcs q)" by blast
  moreover from r(2) have
    "map (\<lambda>t. (GoName t, map f_name (t_ctors t), map f_ctor (t_ctors t))) (p_types q) =
       [(''Foo'', [''NewFoo''], [True])]"
    by (cases "p_types q"; simp)
  ultimately show ?thesis using q r(1) by simp
qed




end
